theory Spec2Isabelle
  imports Complex_Main "HOL-Library.AList"
begin

section \<open>The request engine of the Amazon KDP scraper (src/main.py)\<close>

text \<open>
  The class \<^verbatim>\<open>AmazonKDPScraper\<close> is embedded as functions over an explicit state. The
  state holds the attributes of the scraper object and the part of the outside world the
  methods touch: the random number generator, the HTTP transport, the clock, and the list
  of the effects performed so far (every \<^verbatim>\<open>asyncio.sleep\<close>, every request sent, every
  \<^verbatim>\<open>aclose\<close>). A coroutine runs to completion before its caller goes on, so \<^verbatim>\<open>await f(x)\<close>
  is the call \<open>f x\<close>. Log lines have no effect on the state and are left out.

  Python values of type \<^verbatim>\<open>float\<close> are real numbers here: arithmetic on floats is exact,
  neither rounding nor infinities are modelled. One thing is kept of the finite range of
  a double: converting an \<^verbatim>\<open>int\<close> that does not fit raises \<^verbatim>\<open>OverflowError\<close>, as in
  \<^verbatim>\<open>2.0 * (2 ** 1024)\<close>. A string is a Python \<^verbatim>\<open>str\<close> whose code points are all below 256,
  one 8-bit character for each (the Latin-1 range); text with other code points is
  outside the model.
\<close>

subsection \<open>Exceptions and Python values\<close>

datatype error =
    TypeError | ValueError | OverflowError | AttributeError | KeyError
  | RuntimeError \<comment> \<open>httpx: the client has been closed\<close>
  | TransportError \<comment> \<open>httpx: connection, timeout or protocol failure\<close>

text \<open>The values a JSON input or a scraped record is made of.\<close>

datatype pyval =
    PNone | PBool bool | PInt int | PFloat real | PStr string
  | PList "pyval list" | PDict "(string \<times> pyval) list"

text \<open>
  \<^verbatim>\<open>float(i)\<close> as implicit in \<^verbatim>\<open>2.0 * i\<close> or \<^verbatim>\<open>i + 0.5\<close>: an integer rounds to a double
  unless its magnitude reaches \<open>2^1024 - 2^970\<close>, half an ulp above the largest double.
\<close>

definition float_of_int :: "int \<Rightarrow> error + real" where
  "float_of_int i =
     (if \<bar>i\<bar> < 2 ^ 1024 - 2 ^ 970 then Inr (real_of_int i) else Inl OverflowError)"

subsection \<open>HTTP responses\<close>

text \<open>
  What \<^verbatim>\<open>BeautifulSoup(response.content, 'lxml')\<close> gives to the extractors. HTML parsing
  and the regular expressions run on page text are outside the model: a page is the
  record of what each \<^verbatim>\<open>_extract_*\<close> method returns on it (or the exception it raises,
  where it converts matched text with \<^verbatim>\<open>float\<close> or \<^verbatim>\<open>int\<close>), and of the texts the
  selectors of \<^verbatim>\<open>_extract_enhanced_details\<close> and \<^verbatim>\<open>_scrape_reviews\<close> find.
\<close>

record review_soup =
  review_rating :: "error + real option"
  review_title :: string
  review_text :: string
  review_author :: string
  review_date :: string

record soup =
  result_hrefs :: "string list" \<comment> \<open>href of each search result link, in page order\<close>
  title :: string
  author :: string
  price :: "real option"
  rating :: "error + real option"
  review_count :: "error + int option"
  description :: string
  publication_date :: string
  page_count :: "int option"
  language :: string
  isbn :: string
  categories :: "string list"
  image_url :: string
  feature_items :: "string list" \<comment> \<open>text of each bullet in \<^verbatim>\<open>#feature-bullets\<close>\<close>
  thumb_srcs :: "string option list" \<comment> \<open>\<^verbatim>\<open>src\<close> or \<^verbatim>\<open>data-src\<close> of each image in \<^verbatim>\<open>#altImages\<close>\<close>
  availability_text :: "string option"
  seller_link :: "(string \<times> string option) option" \<comment> \<open>seller name, seller id matched in the link\<close>
  publisher :: "string option"
  dimensions :: "string option"
  review_containers :: "review_soup list"

record response =
  status_code :: int
  headers :: "(string \<times> string) list"
  cookies :: "(string \<times> string) list" \<comment> \<open>\<^verbatim>\<open>dict(response.cookies)\<close>\<close>
  resp_text :: string \<comment> \<open>\<^verbatim>\<open>response.text\<close>\<close>
  resp_url :: string \<comment> \<open>\<^verbatim>\<open>str(response.url)\<close>, after redirects\<close>
  content :: soup

text \<open>What the transport does with one request: it answers, or it raises.\<close>

datatype reply = Answer response | Failure

subsection \<open>The scraper object and the world\<close>

datatype client_state = OPENED | CLOSED

text \<open>
  What the world will hand out, in order: item \<open>n\<close> is the answer to the \<open>n\<close>-th request for
  one from now. \<open>feed xs d\<close> hands out the items of \<open>xs\<close> and then \<open>d\<close> for ever.
\<close>

type_synonym 'a feed = "nat \<Rightarrow> 'a"

definition next_item :: "'a feed \<Rightarrow> 'a" where
  "next_item f = f 0"

definition later :: "'a feed \<Rightarrow> 'a feed" where
  "later f = (\<lambda>n. f (Suc n))"

definition feed :: "'a list \<Rightarrow> 'a \<Rightarrow> 'a feed" where
  "feed xs d = (\<lambda>n. if n < length xs then xs ! n else d)"

text \<open>Where a sleep comes from; the adaptive delay carries its two arguments.\<close>

datatype origin =
    Human | Adaptive nat "int option" | Intelligent int | RetryAfter | Captcha nat
  | Warmup | Pacing

datatype event =
    Sleep origin real
  | Get string "(string \<times> string) list"
  | Aclose

record state =
  \<comment> \<open>attributes of \<^verbatim>\<open>self\<close>\<close>
  client :: client_state
  config :: "(string \<times> pyval) list"
  request_delay :: pyval
  last_error_code :: "int option"
  session_cookies :: "(string \<times> string) list"
  consecutive_failures :: int
  last_success_time :: "nat option"
  session_warmed :: bool \<comment> \<open>\<^verbatim>\<open>hasattr(self, '_session_warmed')\<close>\<close>
  \<comment> \<open>the world\<close>
  rng :: "real feed" \<comment> \<open>what the next calls of \<^verbatim>\<open>random.random()\<close> return, each in \<open>[0, 1)\<close>\<close>
  picks :: "nat feed" \<comment> \<open>the numbers \<^verbatim>\<open>random.choice\<close> reduces to an index\<close>
  replies :: "reply feed" \<comment> \<open>what the transport does with the next requests\<close>
  clock :: "nat feed" \<comment> \<open>what the next calls of \<^verbatim>\<open>datetime.now()\<close> return\<close>
  trace :: "event list" \<comment> \<open>the effects so far, oldest first\<close>

definition random_random :: "state \<Rightarrow> real \<times> state" where
  "random_random s = (next_item (rng s), s\<lparr>rng := later (rng s)\<rparr>)"

text \<open>\<^verbatim>\<open>random.uniform(a, b)\<close> is \<^verbatim>\<open>a + (b - a) * self.random()\<close>.\<close>

definition random_uniform :: "real \<Rightarrow> real \<Rightarrow> state \<Rightarrow> real \<times> state" where
  "random_uniform a b s = (a + (b - a) * next_item (rng s), s\<lparr>rng := later (rng s)\<rparr>)"

text \<open>\<^verbatim>\<open>random.choice(seq)\<close>, only ever called on a non-empty literal list.\<close>

definition random_choice :: "'a list \<Rightarrow> state \<Rightarrow> 'a \<times> state" where
  "random_choice xs s = (xs ! (next_item (picks s) mod length xs), s\<lparr>picks := later (picks s)\<rparr>)"

definition datetime_now :: "state \<Rightarrow> nat \<times> state" where
  "datetime_now s = (next_item (clock s), s\<lparr>clock := later (clock s)\<rparr>)"

definition sleep :: "origin \<Rightarrow> real \<Rightarrow> state \<Rightarrow> state" where
  "sleep who d s = s\<lparr>trace := trace s @ [Sleep who d]\<rparr>"

subsection \<open>Session reset and the two backoff policies\<close>

text \<open>\<^verbatim>\<open>_setup_http_client\<close> (lines 188-191): its body is \<^verbatim>\<open>pass\<close>.\<close>

definition setup_http_client :: "state \<Rightarrow> state" where
  "setup_http_client s = s"

text \<open>
  \<^verbatim>\<open>_reset_session_strategy\<close> (lines 91-115). \<^verbatim>\<open>self.client\<close> is an \<^verbatim>\<open>AsyncClient\<close>, always
  true, so \<^verbatim>\<open>aclose\<close> is always called; it marks the client closed. Were \<^verbatim>\<open>aclose\<close> to
  raise after that, the handler would log and leave the same state.
\<close>

definition reset_session_strategy :: "state \<Rightarrow> state" where
  "reset_session_strategy s =
     (let s1 = s\<lparr>session_cookies := []\<rparr>;
          s2 = s1\<lparr>last_error_code := None\<rparr>;
          s3 = s2\<lparr>client := CLOSED, trace := trace s2 @ [Aclose]\<rparr>
      in setup_http_client s3)"

text \<open>\<^verbatim>\<open>_intelligent_backoff\<close> (lines 117-133).\<close>

definition intelligent_backoff :: "int \<Rightarrow> state \<Rightarrow> state" where
  "intelligent_backoff failures s =
     (if failures \<le> 2 then
        (let (delay, s1) = random_uniform 5 15 s
         in sleep (Intelligent failures) delay s1)
      else if failures \<le> 5 then
        (let (delay, s1) = random_uniform 30 90 s;
             s2 = (if failures = 3 then reset_session_strategy s1 else s1)
         in sleep (Intelligent failures) delay s2)
      else
        (let (delay, s1) = random_uniform 300 600 s;
             s2 = reset_session_strategy s1
         in sleep (Intelligent failures) delay s2))"

text \<open>
  \<^verbatim>\<open>_adaptive_delay_strategy\<close> (lines 578-599). \<open>delay_before_cap\<close> is the value of
  \<^verbatim>\<open>delay\<close> before line 596, given the draw \<open>u\<close> that \<^verbatim>\<open>random.uniform\<close> scales; the
  product is evaluated first, so an overflow leaves the generator untouched.
\<close>

definition delay_before_cap :: "nat \<Rightarrow> int option \<Rightarrow> real \<Rightarrow> error + real" where
  "delay_before_cap attempt error_code u =
     (let base_delay = 2 :: real in
      if error_code = Some 503 then
        (case float_of_int (3 ^ attempt) of Inl e \<Rightarrow> Inl e
         | Inr p \<Rightarrow> Inr (base_delay * p + (10 + (30 - 10) * u)))
      else if error_code = Some 429 then
        (case float_of_int (2 ^ attempt) of Inl e \<Rightarrow> Inl e
         | Inr p \<Rightarrow> Inr (base_delay * p + (15 + (45 - 15) * u)))
      else if error_code = Some 403 then
        (case float_of_int (4 ^ attempt) of Inl e \<Rightarrow> Inl e
         | Inr p \<Rightarrow> Inr (base_delay * p + (30 + (90 - 30) * u)))
      else
        (case float_of_int (2 ^ attempt) of Inl e \<Rightarrow> Inl e
         | Inr p \<Rightarrow> Inr (base_delay * p + (5 + (15 - 5) * u))))"

definition adaptive_delay :: "nat \<Rightarrow> int option \<Rightarrow> real \<Rightarrow> error + real" where
  "adaptive_delay attempt error_code u =
     (case delay_before_cap attempt error_code u of Inl e \<Rightarrow> Inl e
      | Inr delay \<Rightarrow> Inr (min delay 600))"

definition adaptive_delay_strategy :: "nat \<Rightarrow> int option \<Rightarrow> state \<Rightarrow> (error + unit) \<times> state" where
  "adaptive_delay_strategy attempt error_code s =
     (case adaptive_delay attempt error_code (next_item (rng s)) of
        Inl e \<Rightarrow> (Inl e, s)
      | Inr delay \<Rightarrow>
          (Inr (), sleep (Adaptive attempt error_code) delay (s\<lparr>rng := later (rng s)\<rparr>)))"

subsection \<open>Strings and dictionaries\<close>

text \<open>\<^verbatim>\<open>t.startswith(p)\<close> and \<^verbatim>\<open>p in t\<close> on strings.\<close>

fun starts_with :: "string \<Rightarrow> string \<Rightarrow> bool" where
  "starts_with [] t = True"
| "starts_with (p # ps) [] = False"
| "starts_with (p # ps) (c # cs) = (p = c \<and> starts_with ps cs)"

fun str_in :: "string \<Rightarrow> string \<Rightarrow> bool" where
  "str_in p [] = (p = [])"
| "str_in p (c # cs) = (starts_with p (c # cs) \<or> str_in p cs)"

text \<open>
  \<^verbatim>\<open>str.lower\<close>: below 256 the upper-case letters are A to Z and, but for the
  multiplication sign, the code points 192 to 222; each has its lower case 32 above.
\<close>

definition lower_char :: "char \<Rightarrow> char" where
  "lower_char c =
     (let n = of_char c :: nat in
      if (65 \<le> n \<and> n \<le> 90) \<or> (192 \<le> n \<and> n \<le> 222 \<and> n \<noteq> 215) then char_of (n + 32)
      else c)"

definition lower :: "string \<Rightarrow> string" where
  "lower t = map lower_char t"

text \<open>
  \<^verbatim>\<open>str.isdigit\<close>: below 256 the digits are 0 to 9 and the superscripts two, three and
  one (code points 178, 179, 185); only the first ten are decimal digits.
\<close>

definition is_decimal_char :: "char \<Rightarrow> bool" where
  "is_decimal_char c = (let n = of_char c :: nat in 48 \<le> n \<and> n \<le> 57)"

definition is_digit_char :: "char \<Rightarrow> bool" where
  "is_digit_char c = (is_decimal_char c \<or> of_char c \<in> {178, 179, 185 :: nat})"

definition isdigit :: "string \<Rightarrow> bool" where
  "isdigit t = (t \<noteq> [] \<and> list_all is_digit_char t)"

text \<open>The value of a string of decimal digits.\<close>

definition int_of_str :: "string \<Rightarrow> int" where
  "int_of_str t = foldl (\<lambda>a c. 10 * a + (of_char c - 48)) 0 t"

text \<open>
  \<^verbatim>\<open>int(t)\<close> for a string that \<^verbatim>\<open>str.isdigit\<close> accepts: a superscript is no decimal digit,
  and CPython (3.11, default limit) converts no more than 4300 digits; both raise
  \<^verbatim>\<open>ValueError\<close>.
\<close>

definition py_int :: "string \<Rightarrow> error + int" where
  "py_int t =
     (if t \<noteq> [] \<and> list_all is_decimal_char t \<and> length t \<le> 4300 then Inr (int_of_str t)
      else Inl ValueError)"

text \<open>\<^verbatim>\<open>d.get(key, default)\<close>, \<^verbatim>\<open>d.update(other)\<close> and \<^verbatim>\<open>d.pop(key, None)\<close> on a dict kept
  in insertion order.\<close>

definition dict_get :: "(string \<times> 'a) list \<Rightarrow> string \<Rightarrow> 'a \<Rightarrow> 'a" where
  "dict_get d k dflt = (case map_of d k of None \<Rightarrow> dflt | Some v \<Rightarrow> v)"

definition dict_update :: "(string \<times> 'a) list \<Rightarrow> (string \<times> 'a) list \<Rightarrow> (string \<times> 'a) list" where
  "dict_update d other = foldl (\<lambda>acc (k, v). AList.update k v acc) d other"

definition dict_pop :: "string \<Rightarrow> (string \<times> 'a) list \<Rightarrow> (string \<times> 'a) list" where
  "dict_pop k d = AList.delete k d"

text \<open>
  \<^verbatim>\<open>response.headers.get(name)\<close>: httpx compares header names without case and joins the
  values of a repeated header with a comma.
\<close>

definition headers_get :: "(string \<times> string) list \<Rightarrow> string \<Rightarrow> string option" where
  "headers_get hs name =
     (case map snd (filter (\<lambda>(k, v). lower k = lower name) hs) of
        [] \<Rightarrow> None
      | v # vs \<Rightarrow> Some (foldl (\<lambda>a b. a @ '', '' @ b) v vs))"

text \<open>
  \<^verbatim>\<open>value * 0.8\<close> for a configured value: numbers multiply (an \<^verbatim>\<open>int\<close> is converted
  first), every other JSON value raises \<^verbatim>\<open>TypeError\<close>.
\<close>

fun py_mul_float :: "pyval \<Rightarrow> real \<Rightarrow> error + real" where
  "py_mul_float (PBool b) x = Inr (of_bool b * x)"
| "py_mul_float (PInt i) x =
     (case float_of_int i of Inl e \<Rightarrow> Inl e | Inr r \<Rightarrow> Inr (r * x))"
| "py_mul_float (PFloat r) x = Inr (r * x)"
| "py_mul_float _ x = Inl TypeError"

subsection \<open>Request headers\<close>

definition user_agents :: "string list" where
  \<open>user_agents =
    [''Mozilla/5.0 (Windows NT 10.0; Win64; x64) AppleWebKit/537.36 (KHTML, like Gecko) Chrome/119.0.0.0 Safari/537.36'',
     ''Mozilla/5.0 (Windows NT 10.0; Win64; x64) AppleWebKit/537.36 (KHTML, like Gecko) Chrome/118.0.0.0 Safari/537.36'',
     ''Mozilla/5.0 (Windows NT 10.0; Win64; x64) AppleWebKit/537.36 (KHTML, like Gecko) Chrome/117.0.0.0 Safari/537.36'',
     ''Mozilla/5.0 (Macintosh; Intel Mac OS X 10_15_7) AppleWebKit/537.36 (KHTML, like Gecko) Chrome/119.0.0.0 Safari/537.36'',
     ''Mozilla/5.0 (Macintosh; Intel Mac OS X 10_15_7) AppleWebKit/537.36 (KHTML, like Gecko) Chrome/118.0.0.0 Safari/537.36'',
     ''Mozilla/5.0 (Windows NT 10.0; Win64; x64; rv:109.0) Gecko/20100101 Firefox/119.0'',
     ''Mozilla/5.0 (Windows NT 10.0; Win64; x64; rv:109.0) Gecko/20100101 Firefox/118.0'',
     ''Mozilla/5.0 (Macintosh; Intel Mac OS X 10.15; rv:109.0) Gecko/20100101 Firefox/119.0'',
     ''Mozilla/5.0 (Macintosh; Intel Mac OS X 10_15_7) AppleWebKit/605.1.15 (KHTML, like Gecko) Version/17.1 Safari/605.1.15'',
     ''Mozilla/5.0 (Macintosh; Intel Mac OS X 10_15_7) AppleWebKit/605.1.15 (KHTML, like Gecko) Version/16.6 Safari/605.1.15'',
     ''Mozilla/5.0 (Windows NT 10.0; Win64; x64) AppleWebKit/537.36 (KHTML, like Gecko) Chrome/119.0.0.0 Safari/537.36 Edg/119.0.0.0'',
     ''Mozilla/5.0 (Windows NT 10.0; Win64; x64) AppleWebKit/537.36 (KHTML, like Gecko) Chrome/118.0.0.0 Safari/537.36 Edg/118.0.0.0'']\<close>

text \<open>\<^verbatim>\<open>_get_realistic_headers\<close> (lines 426-492).\<close>

definition get_realistic_headers :: "string \<Rightarrow> state \<Rightarrow> (string \<times> string) list \<times> state" where
  \<open>get_realistic_headers target s =
     (let (user_agent, s1) = random_choice user_agents s;
          (accept_language, s2) = random_choice
             [''en-US,en;q=0.9'', ''en-US,en;q=0.8,fr;q=0.6'',
              ''en-GB,en;q=0.9,en-US;q=0.8'', ''en-US,en;q=0.9,es;q=0.8''] s1;
          (sec_fetch_site, s3) = random_choice [''none'', ''same-origin'', ''cross-site''] s2;
          (cache_control, s4) = random_choice [''max-age=0'', ''no-cache''] s3;
          base_headers =
            [(''User-Agent'', user_agent),
             (''Accept'', ''text/html,application/xhtml+xml,application/xml;q=0.9,image/avif,image/webp,image/apng,*/*;q=0.8''),
             (''Accept-Language'', accept_language),
             (''Accept-Encoding'', ''gzip, deflate, br''),
             (''Connection'', ''keep-alive''),
             (''Upgrade-Insecure-Requests'', ''1''),
             (''Sec-Fetch-Dest'', ''document''),
             (''Sec-Fetch-Mode'', ''navigate''),
             (''Sec-Fetch-Site'', sec_fetch_site),
             (''Sec-Fetch-User'', ''?1''),
             (''Cache-Control'', cache_control),
             (''DNT'', ''1'')];
          (h1, s5) =
            (if target \<noteq> [] \<and> str_in ''amazon.com'' target then
               if str_in ''/s?'' target then
                 (AList.update ''Referer'' ''https://www.amazon.com/'' base_headers, s4)
               else if str_in ''/dp/'' target then
                 (AList.update ''Referer'' ''https://www.amazon.com/s?k=books'' base_headers, s4)
               else
                 (let (referrer, s') = random_choice
                        [''https://www.amazon.com/'',
                         ''https://www.amazon.com/gp/bestsellers/books'',
                         ''https://www.amazon.com/books-used-books-textbooks/b?ie=UTF8&node=283155''] s4
                  in (AList.update ''Referer'' referrer base_headers, s'))
             else (base_headers, s4));
          (h2, s6) =
            (if str_in ''Chrome'' user_agent then
               (let (chrome_version, sa) = random_choice [''119'', ''118'', ''117''] s5;
                    (platform, sb) = random_choice [''Windows'', ''macOS'', ''Linux''] sa;
                    (arch, sc) = random_choice [''x86'', ''arm''] sb
                in (dict_update h1
                      [(''sec-ch-ua'',
                          ''"Google Chrome";v="'' @ chrome_version @ ''", "Chromium";v="''
                            @ chrome_version @ ''", "Not?A_Brand";v="24"''),
                       (''sec-ch-ua-mobile'', ''?0''),
                       (''sec-ch-ua-platform'', ''"'' @ platform @ ''"''),
                       (''sec-ch-ua-arch'', ''"'' @ arch @ ''"''),
                       (''sec-ch-ua-bitness'', ''"64"''),
                       (''sec-ch-ua-full-version-list'',
                          ''"Google Chrome";v="'' @ chrome_version @ ''.0.0.0", "Chromium";v="''
                            @ chrome_version @ ''.0.0.0", "Not?A_Brand";v="24.0.0.0"'')], sc))
             else if str_in ''Firefox'' user_agent then
               (let (site, sa) = random_choice [''none'', ''same-origin''] s5
                in (dict_update h1
                      [(''Accept'', ''text/html,application/xhtml+xml,application/xml;q=0.9,image/avif,image/webp,*/*;q=0.8''),
                       (''Sec-Fetch-Site'', site)], sa))
             else (h1, s5));
          (r1, s7) = random_random s6;
          h3 = (if r1 < 0.2 then dict_pop ''Cache-Control'' h2 else h2);
          (r2, s8) = random_random s7;
          h4 = (if r2 < 0.15 then dict_pop ''Upgrade-Insecure-Requests'' h3 else h3);
          (r3, s9) = random_random s8;
          h5 = (if r3 < 0.1 then dict_pop ''DNT'' h4 else h4)
      in (h5, s9))\<close>

subsection \<open>CAPTCHA pages\<close>

text \<open>
  \<^verbatim>\<open>_is_captcha_page\<close> (lines 494-540). \<^verbatim>\<open>str(response.headers)\<close> prints every header name
  and value between quotes: the word occurs in it exactly when it occurs in one of them.
\<close>

definition is_captcha_page :: "response \<Rightarrow> bool" where
  \<open>is_captcha_page r =
     (let content = lower (resp_text r);
          captcha_indicators =
            [''captcha'', ''robot check'', ''security check'', ''please verify'',
             ''are you a robot'', ''verify you are human'', ''prove you are not a robot'',
             ''complete the security check'', ''automated queries'', ''unusual traffic'',
             ''suspicious activity''];
          content_has_captcha = list_ex (\<lambda>indicator. str_in indicator content) captcha_indicators;
          url_has_captcha = str_in ''captcha'' (lower (resp_url r));
          amazon_captcha_patterns =
            [''api/captcha'', ''errors/validateCaptcha'', ''ref=cs_503_logo'', ''validatecaptcha'',
             ''captcha.html''];
          amazon_captcha =
            list_ex (\<lambda>pattern. str_in pattern (lower (resp_url r))) amazon_captcha_patterns;
          headers_captcha =
            list_ex (\<lambda>(k, v). str_in ''captcha'' (lower k) \<or> str_in ''captcha'' (lower v)) (headers r);
          amazon_blocking_patterns =
            [''to discuss automated access to amazon data please contact'',
             ''we just need to make sure you'' @ [CHR 0x27] @ ''re not a robot'',
             ''enter the characters you see below''];
          amazon_blocking = list_ex (\<lambda>pattern. str_in pattern content) amazon_blocking_patterns
      in content_has_captcha \<or> url_has_captcha \<or> amazon_captcha \<or> headers_captcha \<or> amazon_blocking)\<close>

text \<open>\<^verbatim>\<open>_handle_captcha_scenario\<close> (lines 542-576); the timestamp is read for the log.\<close>

definition handle_captcha_scenario :: "response \<Rightarrow> nat \<Rightarrow> state \<Rightarrow> bool \<times> state" where
  "handle_captcha_scenario r attempt s =
     (let (timestamp, s1) = datetime_now s;
          (delay, s2) =
            (if attempt = 0 then random_uniform 10 20 s1
             else if attempt = 1 then random_uniform 30 60 s1
             else if attempt = 2 then random_uniform 120 300 s1
             else random_uniform 600 1200 s1);
          s3 = sleep (Captcha attempt) delay s2
      in (attempt < 3, s3))"

subsection \<open>One logical fetch\<close>

text \<open>
  \<^verbatim>\<open>self.client.get(url, headers=headers, follow_redirects=True)\<close>: a closed client raises
  before anything is sent; otherwise the request goes out and the transport answers or
  raises.
\<close>

definition client_get :: "string \<Rightarrow> (string \<times> string) list \<Rightarrow> state \<Rightarrow> (error + response) \<times> state" where
  "client_get target hdrs s =
     (if client s = CLOSED then (Inl RuntimeError, s)
      else
        (let s1 = s\<lparr>replies := later (replies s), trace := trace s @ [Get target hdrs]\<rparr>
         in case next_item (replies s) of
              Failure \<Rightarrow> (Inl TransportError, s1)
            | Answer r \<Rightarrow> (Inr r, s1)))"

text \<open>How one pass through the body of the \<^verbatim>\<open>for\<close> loop ends: \<^verbatim>\<open>continue\<close> (with the
  local \<^verbatim>\<open>captcha_attempts\<close>) or \<^verbatim>\<open>return\<close>.\<close>

datatype flow = Continue nat | Return "response option"

text \<open>Lines 200-217 of \<^verbatim>\<open>_make_request\<close>: headers, delays, and the request.\<close>

definition send_request :: "string \<Rightarrow> nat \<Rightarrow> state \<Rightarrow> (error + response) \<times> state" where
  "send_request target attempt s =
     (let (hdrs, s1) = get_realistic_headers target s
      in case (if attempt > 0 then adaptive_delay_strategy attempt (last_error_code s1) s1
               else (Inr (), s1)) of
           (Inl e, s2) \<Rightarrow> (Inl e, s2)
         | (Inr _, s2) \<Rightarrow>
             (let request_delay = dict_get (config s2) ''requestDelay'' (PInt 2)
              in case py_mul_float request_delay 0.8 of
                   Inl e \<Rightarrow> (Inl e, s2)
                 | Inr lo \<Rightarrow>
                    (case py_mul_float request_delay 2.0 of
                       Inl e \<Rightarrow> (Inl e, s2)
                     | Inr hi \<Rightarrow>
                        (let (human_delay, s3) = random_uniform lo hi s2;
                             (r, s4) = random_random s3;
                             (human_delay', s5) =
                               (if r < 0.1 then
                                  (let (pause, s') = random_uniform 5 15 s4
                                   in (human_delay + pause, s'))
                                else (human_delay, s4));
                             s6 = sleep Human human_delay' s5
                         in client_get target hdrs s6))))"

text \<open>
  Lines 219-304: what is done with a response. An exception raised here leaves the
  state as it is at that point, for the handler of line 306.
\<close>

definition handle_response ::
  "int \<Rightarrow> nat \<Rightarrow> nat \<Rightarrow> response \<Rightarrow> state \<Rightarrow> (error + flow) \<times> state" where
  "handle_response max_retries attempt captcha_attempts r s =
     (let s1 = s\<lparr>last_error_code := Some (status_code r)\<rparr> in
      if is_captcha_page r then
        (let captcha_attempts' = captcha_attempts + 1;
             (should_continue, s2) = handle_captcha_scenario r (captcha_attempts' - 1) s1
         in if should_continue \<and> int attempt < max_retries - 1 then
              (let s3 = s2\<lparr>session_cookies := []\<rparr>;
                   s4 = s3\<lparr>consecutive_failures := consecutive_failures s3 + 1\<rparr>
               in (Inr (Continue captcha_attempts'), s4))
            else
              (Inr (Return None), s2\<lparr>consecutive_failures := consecutive_failures s2 + 1\<rparr>))
      else if status_code r = 200 then
        (let s2 = s1\<lparr>last_error_code := None\<rparr>;
             s3 = s2\<lparr>consecutive_failures := 0\<rparr>;
             (t, s4) = datetime_now s3;
             s5 = s4\<lparr>last_success_time := Some t\<rparr>;
             s6 = (if cookies r \<noteq> [] then
                     s5\<lparr>session_cookies := dict_update (session_cookies s5) (cookies r)\<rparr>
                   else s5)
         in (Inr (Return (Some r)), s6))
      else if status_code r = 503 then
        (let s2 = s1\<lparr>consecutive_failures := consecutive_failures s1 + 1\<rparr>
         in if int attempt < max_retries - 1 then
              (case adaptive_delay_strategy attempt (Some 503) s2 of
                 (Inl e, s3) \<Rightarrow> (Inl e, s3)
               | (Inr _, s3) \<Rightarrow>
                   (Inr (Continue captcha_attempts),
                    if consecutive_failures s3 \<ge> 3
                    then intelligent_backoff (consecutive_failures s3) s3 else s3))
            else (Inr (Continue captcha_attempts), s2))
      else if status_code r = 429 then
        (let s2 = s1\<lparr>consecutive_failures := consecutive_failures s1 + 1\<rparr>;
             retry_after = headers_get (headers r) ''Retry-After'';
             otherwise =
               (case adaptive_delay_strategy attempt (Some 429) s2 of
                  (Inl e, s3) \<Rightarrow> (Inl e, s3)
                | (Inr _, s3) \<Rightarrow> (Inr (Continue captcha_attempts), s3))
         in case retry_after of
              None \<Rightarrow> otherwise
            | Some v \<Rightarrow>
                if v \<noteq> [] \<and> isdigit v then
                  (case py_int v of
                     Inl e \<Rightarrow> (Inl e, s2)
                   | Inr n \<Rightarrow>
                       (let (buffer, s3) = random_uniform 5 15 s2
                        in case float_of_int n of
                             Inl e \<Rightarrow> (Inl e, s3)
                           | Inr seconds \<Rightarrow>
                               (Inr (Continue captcha_attempts),
                                sleep RetryAfter (seconds + buffer) s3)))
                else otherwise)
      else if status_code r = 403 then
        (let s2 = s1\<lparr>consecutive_failures := consecutive_failures s1 + 1\<rparr>
         in if is_captcha_page r then
              (let captcha_attempts' = captcha_attempts + 1;
                   (should_continue, s3) = handle_captcha_scenario r (captcha_attempts' - 1) s2
               in if should_continue \<and> int attempt < max_retries - 1 then
                    (Inr (Continue captcha_attempts'), s3\<lparr>session_cookies := []\<rparr>)
                  else (Inr (Return None), s3))
            else if int attempt < max_retries - 1 then
              (case adaptive_delay_strategy attempt (Some 403) s2 of
                 (Inl e, s3) \<Rightarrow> (Inl e, s3)
               | (Inr _, s3) \<Rightarrow>
                   (Inr (Continue captcha_attempts),
                    if consecutive_failures s3 \<ge> 2
                    then intelligent_backoff (consecutive_failures s3) s3 else s3))
            else (Inr (Continue captcha_attempts), s2))
      else if status_code r = 404 then
        (Inr (Return None), s1)
      else
        (let s2 = s1\<lparr>consecutive_failures := consecutive_failures s1 + 1\<rparr>
         in if int attempt < max_retries - 1 then
              (case adaptive_delay_strategy attempt None s2 of
                 (Inl e, s3) \<Rightarrow> (Inl e, s3)
               | (Inr _, s3) \<Rightarrow> (Inr (Continue captcha_attempts), s3))
            else (Inr (Continue captcha_attempts), s2)))"

text \<open>
  Lines 306-317, the handler of \<^verbatim>\<open>except Exception\<close>. No statement of the \<^verbatim>\<open>try\<close> block
  that can raise comes after a change of \<^verbatim>\<open>captcha_attempts\<close>, so the handler continues
  with the value the pass began with. What the handler itself raises leaves the function.
\<close>

definition on_exception :: "int \<Rightarrow> nat \<Rightarrow> nat \<Rightarrow> state \<Rightarrow> (error + flow) \<times> state" where
  "on_exception max_retries attempt captcha_attempts s =
     (let s1 = s\<lparr>consecutive_failures := consecutive_failures s + 1\<rparr>
      in if int attempt < max_retries - 1 then
           (case adaptive_delay_strategy attempt None s1 of
              (Inl e, s2) \<Rightarrow> (Inl e, s2)
            | (Inr _, s2) \<Rightarrow>
                (Inr (Continue captcha_attempts),
                 if consecutive_failures s2 \<ge> 3
                 then intelligent_backoff (consecutive_failures s2) s2 else s2))
         else (Inr (Return None), s1))"

text \<open>One pass through the loop body, lines 199-317.\<close>

definition attempt_body ::
  "string \<Rightarrow> int \<Rightarrow> nat \<Rightarrow> nat \<Rightarrow> state \<Rightarrow> (error + flow) \<times> state" where
  "attempt_body target max_retries attempt captcha_attempts s =
     (case send_request target attempt s of
        (Inl e, s1) \<Rightarrow> on_exception max_retries attempt captcha_attempts s1
      | (Inr r, s1) \<Rightarrow>
          (case handle_response max_retries attempt captcha_attempts r s1 of
             (Inl e, s2) \<Rightarrow> on_exception max_retries attempt captcha_attempts s2
           | (Inr f, s2) \<Rightarrow> (Inr f, s2)))"

text \<open>Lines 319-327, after the loop has run out.\<close>

definition all_attempts_failed :: "state \<Rightarrow> (error + response option) \<times> state" where
  "all_attempts_failed s =
     (let s1 = s\<lparr>consecutive_failures := consecutive_failures s + 1\<rparr>;
          s2 = (if consecutive_failures s1 \<ge> 5
                then intelligent_backoff (consecutive_failures s1) s1 else s1)
      in (Inr None, s2))"

text \<open>The loop \<^verbatim>\<open>for attempt in range(max_retries)\<close>, from \<open>attempt\<close> on.\<close>

function make_request_loop ::
  "string \<Rightarrow> int \<Rightarrow> nat \<Rightarrow> nat \<Rightarrow> state \<Rightarrow> (error + response option) \<times> state" where
  "make_request_loop target max_retries attempt captcha_attempts s =
     (if int attempt < max_retries then
        (case attempt_body target max_retries attempt captcha_attempts s of
           (Inl e, s1) \<Rightarrow> (Inl e, s1)
         | (Inr (Return result), s1) \<Rightarrow> (Inr result, s1)
         | (Inr (Continue captcha_attempts'), s1) \<Rightarrow>
             make_request_loop target max_retries (Suc attempt) captcha_attempts' s1)
      else all_attempts_failed s)"
  by pat_completeness auto
termination
  by (relation "measure (\<lambda>(target, max_retries, attempt, c, s). nat (max_retries - int attempt))")
     auto

declare make_request_loop.simps [simp del]

text \<open>\<^verbatim>\<open>_make_request\<close> (lines 193-327). Nothing in the body reads \<^verbatim>\<open>skip_warmup\<close>.\<close>

definition make_request ::
  "string \<Rightarrow> int \<Rightarrow> bool \<Rightarrow> state \<Rightarrow> (error + response option) \<times> state" where
  "make_request target max_retries skip_warmup s = make_request_loop target max_retries 0 0 s"

subsection \<open>Python values: truth, comparison, items\<close>

fun truthy :: "pyval \<Rightarrow> bool" where
  "truthy PNone = False"
| "truthy (PBool b) = b"
| "truthy (PInt i) = (i \<noteq> 0)"
| "truthy (PFloat r) = (r \<noteq> 0)"
| "truthy (PStr t) = (t \<noteq> [])"
| "truthy (PList xs) = (xs \<noteq> [])"
| "truthy (PDict d) = (d \<noteq> [])"

fun py_num :: "pyval \<Rightarrow> real option" where
  "py_num (PBool b) = Some (of_bool b)"
| "py_num (PInt i) = Some (real_of_int i)"
| "py_num (PFloat r) = Some r"
| "py_num _ = None"

fun str_lt :: "string \<Rightarrow> string \<Rightarrow> bool" where
  "str_lt [] [] = False"
| "str_lt [] (d # ds) = True"
| "str_lt (c # cs) [] = False"
| "str_lt (c # cs) (d # ds) = (if c = d then str_lt cs ds else (of_char c :: nat) < of_char d)"

text \<open>\<^verbatim>\<open>a == b\<close>: numbers by value, strings and lists by content, dicts key by key.\<close>

fun py_eq :: "pyval \<Rightarrow> pyval \<Rightarrow> bool"
  and py_eq_list :: "pyval list \<Rightarrow> pyval list \<Rightarrow> bool"
  and py_eq_items :: "(string \<times> pyval) list \<Rightarrow> (string \<times> pyval) list \<Rightarrow> bool" where
  "py_eq PNone PNone = True"
| "py_eq (PStr a) (PStr b) = (a = b)"
| "py_eq (PList xs) (PList ys) = py_eq_list xs ys"
| "py_eq (PDict d) (PDict e) = (length d = length e \<and> py_eq_items d e)"
| "py_eq a b = (case (py_num a, py_num b) of (Some x, Some y) \<Rightarrow> x = y | _ \<Rightarrow> False)"
| "py_eq_list [] [] = True"
| "py_eq_list [] (y # ys) = False"
| "py_eq_list (x # xs) [] = False"
| "py_eq_list (x # xs) (y # ys) = (py_eq x y \<and> py_eq_list xs ys)"
| "py_eq_items [] e = True"
| "py_eq_items ((k, v) # d) e =
     ((case map_of e k of None \<Rightarrow> False | Some w \<Rightarrow> py_eq v w) \<and> py_eq_items d e)"

text \<open>
  \<^verbatim>\<open>a < b\<close> and \<^verbatim>\<open>a <= b\<close>: defined between two numbers, two strings and two lists (by the
  first pair of unequal elements); every other pairing raises \<^verbatim>\<open>TypeError\<close>, a dict or
  \<^verbatim>\<open>None\<close> on either side always does.
\<close>

fun py_lt :: "pyval \<Rightarrow> pyval \<Rightarrow> error + bool"
  and py_lt_list :: "pyval list \<Rightarrow> pyval list \<Rightarrow> error + bool" where
  "py_lt (PStr a) (PStr b) = Inr (str_lt a b)"
| "py_lt (PList xs) (PList ys) = py_lt_list xs ys"
| "py_lt a b = (case (py_num a, py_num b) of (Some x, Some y) \<Rightarrow> Inr (x < y) | _ \<Rightarrow> Inl TypeError)"
| "py_lt_list [] [] = Inr False"
| "py_lt_list [] (y # ys) = Inr True"
| "py_lt_list (x # xs) [] = Inr False"
| "py_lt_list (x # xs) (y # ys) = (if py_eq x y then py_lt_list xs ys else py_lt x y)"

fun py_le :: "pyval \<Rightarrow> pyval \<Rightarrow> error + bool"
  and py_le_list :: "pyval list \<Rightarrow> pyval list \<Rightarrow> error + bool" where
  "py_le (PStr a) (PStr b) = Inr (\<not> str_lt b a)"
| "py_le (PList xs) (PList ys) = py_le_list xs ys"
| "py_le a b = (case (py_num a, py_num b) of (Some x, Some y) \<Rightarrow> Inr (x \<le> y) | _ \<Rightarrow> Inl TypeError)"
| "py_le_list [] ys = Inr True"
| "py_le_list (x # xs) [] = Inr False"
| "py_le_list (x # xs) (y # ys) = (if py_eq x y then py_le_list xs ys else py_le x y)"

text \<open>\<^verbatim>\<open>d[k1][k2] = v\<close> and \<^verbatim>\<open>d[k1][k2].append(v)\<close>, \<^verbatim>\<open>d[k].append(v)\<close> on nested dicts.\<close>

definition set_item2 :: "string \<Rightarrow> string \<Rightarrow> pyval \<Rightarrow> (string \<times> pyval) list \<Rightarrow> error + (string \<times> pyval) list" where
  "set_item2 k1 k2 v d =
     (case map_of d k1 of
        None \<Rightarrow> Inl KeyError
      | Some (PDict inner) \<Rightarrow> Inr (AList.update k1 (PDict (AList.update k2 v inner)) d)
      | Some _ \<Rightarrow> Inl TypeError)"

definition append_item :: "string \<Rightarrow> pyval \<Rightarrow> (string \<times> pyval) list \<Rightarrow> error + (string \<times> pyval) list" where
  "append_item k v d =
     (case map_of d k of
        None \<Rightarrow> Inl KeyError
      | Some (PList xs) \<Rightarrow> Inr (AList.update k (PList (xs @ [v])) d)
      | Some _ \<Rightarrow> Inl AttributeError)"

definition append_item2 :: "string \<Rightarrow> string \<Rightarrow> pyval \<Rightarrow> (string \<times> pyval) list \<Rightarrow> error + (string \<times> pyval) list" where
  "append_item2 k1 k2 v d =
     (case map_of d k1 of
        None \<Rightarrow> Inl KeyError
      | Some (PDict inner) \<Rightarrow>
          (case append_item k2 v inner of Inl e \<Rightarrow> Inl e
           | Inr inner' \<Rightarrow> Inr (AList.update k1 (PDict inner') d))
      | Some _ \<Rightarrow> Inl TypeError)"

text \<open>\<^verbatim>\<open>sep.join(v)\<close> for a list of strings; a list holding anything else raises.\<close>

fun join :: "string \<Rightarrow> string list \<Rightarrow> string" where
  "join sep [] = []"
| "join sep [x] = x"
| "join sep (x # y # ys) = x @ sep @ join sep (y # ys)"

fun strings_of :: "pyval list \<Rightarrow> error + string list" where
  "strings_of [] = Inr []"
| "strings_of (PStr t # xs) = (case strings_of xs of Inl e \<Rightarrow> Inl e | Inr ts \<Rightarrow> Inr (t # ts))"
| "strings_of (_ # xs) = Inl TypeError"

text \<open>
  \<^verbatim>\<open>await asyncio.sleep(v)\<close> for a configured value \<open>v\<close>: a number is slept, anything else
  fails the comparison \<^verbatim>\<open>delay <= 0\<close> that \<^verbatim>\<open>asyncio.sleep\<close> begins with.
\<close>

definition asyncio_sleep :: "origin \<Rightarrow> pyval \<Rightarrow> state \<Rightarrow> (error + unit) \<times> state" where
  "asyncio_sleep who v s =
     (case py_num v of None \<Rightarrow> (Inl TypeError, s) | Some d \<Rightarrow> (Inr (), sleep who d s))"

text \<open>\<^verbatim>\<open>xs[:v]\<close>: \<^verbatim>\<open>None\<close> keeps all, an \<^verbatim>\<open>int\<close> or \<^verbatim>\<open>bool\<close> cuts (from the end when
  negative), anything else is no slice index.\<close>

fun slice_to :: "'a list \<Rightarrow> pyval \<Rightarrow> error + 'a list" where
  "slice_to xs PNone = Inr xs"
| "slice_to xs (PInt n) =
     Inr (if 0 \<le> n then take (nat n) xs else take (nat (int (length xs) + n)) xs)"
| "slice_to xs (PBool b) = Inr (take (of_bool b) xs)"
| "slice_to xs _ = Inl TypeError"

subsection \<open>URLs\<close>

definition base_url :: string where
  "base_url = ''https://www.amazon.com''"

definition hex_digit :: "nat \<Rightarrow> char" where
  "hex_digit n = (if n < 10 then char_of (48 + n) else char_of (55 + n))"

definition percent :: "nat \<Rightarrow> string" where
  "percent byte = [CHR ''%'', hex_digit (byte div 16), hex_digit (byte mod 16)]"

text \<open>\<^verbatim>\<open>urllib.parse.quote_plus\<close>, character by character; a code point from 128 on is
  two bytes in UTF-8.\<close>

definition quote_char :: "char \<Rightarrow> string" where
  "quote_char c =
     (let n = of_char c :: nat in
      if (65 \<le> n \<and> n \<le> 90) \<or> (97 \<le> n \<and> n \<le> 122) \<or> (48 \<le> n \<and> n \<le> 57)
         \<or> c \<in> set ''_.-~'' then [c]
      else if c = CHR '' '' then ''+''
      else if n < 128 then percent n
      else percent (192 + n div 64) @ percent (128 + n mod 64))"

definition quote_plus :: "string \<Rightarrow> string" where
  "quote_plus t = concat (map quote_char t)"

definition urlencode :: "(string \<times> string) list \<Rightarrow> string" where
  "urlencode params = join ''&'' (map (\<lambda>(k, v). quote_plus k @ ''='' @ quote_plus v) params)"

text \<open>
  \<^verbatim>\<open>_build_search_url\<close> (lines 166-186). A configured \<^verbatim>\<open>sortBy\<close> that is a list or a dict
  cannot be looked up in \<^verbatim>\<open>sort_mapping\<close> (unhashable).
\<close>

definition build_search_url :: "string \<Rightarrow> state \<Rightarrow> error + string" where
  "build_search_url search_term s =
     (let params = [(''k'', search_term), (''i'', ''digital-text''), (''ref'', ''sr_nr_i_0'')];
          sort_by = dict_get (config s) ''sortBy'' (PStr ''relevance'');
          sort_mapping =
            [(''price-low-to-high'', ''price-asc-rank''),
             (''price-high-to-low'', ''price-desc-rank''),
             (''avg-customer-review'', ''review-rank''),
             (''newest-arrivals'', ''date-desc-rank'')]
      in if \<not> py_eq sort_by (PStr ''relevance'') then
           (case sort_by of
              PList _ \<Rightarrow> Inl TypeError
            | PDict _ \<Rightarrow> Inl TypeError
            | PStr key \<Rightarrow>
                Inr (base_url @ ''/s?'' @
                     urlencode (AList.update ''s'' (dict_get sort_mapping key ''relevance'') params))
            | _ \<Rightarrow>
                Inr (base_url @ ''/s?'' @ urlencode (AList.update ''s'' ''relevance'' params)))
         else Inr (base_url @ ''/s?'' @ urlencode params))"

text \<open>\<^verbatim>\<open>re.search(r'/dp/([A-Z0-9]{10})', book_url)\<close>, group 1.\<close>

definition is_asin_char :: "char \<Rightarrow> bool" where
  "is_asin_char c = (let n = of_char c :: nat in (65 \<le> n \<and> n \<le> 90) \<or> (48 \<le> n \<and> n \<le> 57))"

fun asin_of :: "string \<Rightarrow> string option" where
  "asin_of [] = None"
| "asin_of (c # cs) =
     (if starts_with ''/dp/'' (c # cs) \<and> 10 \<le> length (drop 4 (c # cs))
         \<and> list_all is_asin_char (take 10 (drop 4 (c # cs)))
      then Some (take 10 (drop 4 (c # cs)))
      else asin_of cs)"

text \<open>\<^verbatim>\<open>_extract_book_links\<close> (lines 329-344).\<close>

definition extract_book_links :: "soup \<Rightarrow> string list" where
  "extract_book_links sp = map (\<lambda>href. base_url @ href) (filter (\<lambda>href. href \<noteq> []) (result_hrefs sp))"

subsection \<open>Book pages\<close>

definition opt_str :: "string option \<Rightarrow> pyval" where
  "opt_str v = (case v of None \<Rightarrow> PNone | Some t \<Rightarrow> PStr t)"

definition opt_int :: "int option \<Rightarrow> pyval" where
  "opt_int v = (case v of None \<Rightarrow> PNone | Some i \<Rightarrow> PInt i)"

definition opt_float :: "real option \<Rightarrow> pyval" where
  "opt_float v = (case v of None \<Rightarrow> PNone | Some r \<Rightarrow> PFloat r)"

definition bind_err :: "error + 'a \<Rightarrow> ('a \<Rightarrow> error + 'b) \<Rightarrow> error + 'b" where
  "bind_err x f = (case x of Inl e \<Rightarrow> Inl e | Inr v \<Rightarrow> f v)"

text \<open>The loops of \<^verbatim>\<open>_extract_enhanced_details\<close> over the bullets and the thumbnails.\<close>

fun add_features :: "string list \<Rightarrow> (string \<times> pyval) list \<Rightarrow> error + (string \<times> pyval) list" where
  "add_features [] book_data = Inr book_data"
| "add_features (feature_text # rest) book_data =
     (if feature_text \<noteq> [] \<and> length feature_text > 10 then
        bind_err (append_item ''features'' (PStr feature_text) book_data) (add_features rest)
      else add_features rest book_data)"

definition thumbnails_of :: "(string \<times> pyval) list \<Rightarrow> error + pyval list" where
  "thumbnails_of book_data =
     (case map_of book_data ''images'' of
        None \<Rightarrow> Inl KeyError
      | Some (PDict images) \<Rightarrow>
          (case map_of images ''thumbnails'' of
             None \<Rightarrow> Inl KeyError
           | Some (PList xs) \<Rightarrow> Inr xs
           | Some _ \<Rightarrow> Inl TypeError)
      | Some _ \<Rightarrow> Inl TypeError)"

fun add_thumbnails :: "string option list \<Rightarrow> (string \<times> pyval) list \<Rightarrow> error + (string \<times> pyval) list" where
  "add_thumbnails [] book_data = Inr book_data"
| "add_thumbnails (None # rest) book_data = add_thumbnails rest book_data"
| "add_thumbnails (Some thumb_src # rest) book_data =
     (if thumb_src = [] then add_thumbnails rest book_data
      else
        bind_err (thumbnails_of book_data) (\<lambda>present.
          if list_ex (py_eq (PStr thumb_src)) present then add_thumbnails rest book_data
          else bind_err (append_item2 ''images'' ''thumbnails'' (PStr thumb_src) book_data)
                 (add_thumbnails rest)))"

text \<open>
  \<^verbatim>\<open>_extract_enhanced_details\<close> (lines 601-660). The separator of the breadcrumbs is
  U+203A between spaces; it is no character below 256 and stands here as its three
  bytes in UTF-8, the one string of the model that is not read character by character.
\<close>

definition extract_enhanced_details :: "soup \<Rightarrow> (string \<times> pyval) list \<Rightarrow> error + (string \<times> pyval) list" where
  "extract_enhanced_details sp book_data =
     bind_err
       (case map_of book_data ''categories'' of
          None \<Rightarrow> Inl KeyError
        | Some cats \<Rightarrow>
            if truthy cats then
              (case cats of
                 PList xs \<Rightarrow>
                   bind_err (strings_of xs) (\<lambda>ts.
                     Inr (AList.update ''breadcrumbs''
                            (PStr (join ([CHR '' '', CHR 0xE2, CHR 0x80, CHR 0xBA, CHR '' '']) ts))
                            book_data))
               | _ \<Rightarrow> Inl TypeError)
            else Inr book_data)
       (\<lambda>b1. bind_err (add_features (feature_items sp) b1)
       (\<lambda>b2. bind_err (add_thumbnails (thumb_srcs sp) b2)
       (\<lambda>b3. bind_err
          (case availability_text sp of
             None \<Rightarrow> Inr b3
           | Some avail_text \<Rightarrow>
               bind_err (set_item2 ''availability'' ''stockText'' (PStr avail_text) b3)
                 (set_item2 ''availability'' ''inStock''
                    (PBool (str_in ''in stock'' (lower avail_text)
                            \<or> str_in ''available'' (lower avail_text)))))
       (\<lambda>b4. bind_err
          (case seller_link sp of
             None \<Rightarrow> Inr b4
           | Some (name, seller_id) \<Rightarrow>
               bind_err (set_item2 ''seller'' ''name'' (PStr name) b4) (\<lambda>b.
                 case seller_id of None \<Rightarrow> Inr b
                 | Some i \<Rightarrow> set_item2 ''seller'' ''id'' (PStr i) b))
       (\<lambda>b5. bind_err
          (case publisher sp of None \<Rightarrow> Inr b5
           | Some t \<Rightarrow> set_item2 ''details'' ''publisher'' (PStr t) b5)
       (\<lambda>b6. case dimensions sp of None \<Rightarrow> Inr b6
           | Some t \<Rightarrow> set_item2 ''details'' ''dimensions'' (PStr t) b6))))))"

text \<open>\<^verbatim>\<open>_scrape_reviews\<close> (lines 833-862); the rating of a review is read first.\<close>

fun reviews_of :: "review_soup list \<Rightarrow> error + pyval list" where
  "reviews_of [] = Inr []"
| "reviews_of (container # rest) =
     bind_err (review_rating container) (\<lambda>stars.
       bind_err (reviews_of rest) (\<lambda>reviews.
         Inr (PDict [(''rating'', opt_float stars),
                     (''title'', PStr (review_title container)),
                     (''text'', PStr (review_text container)),
                     (''author'', PStr (review_author container)),
                     (''date'', PStr (review_date container))] # reviews)))"

definition scrape_reviews :: "string \<Rightarrow> state \<Rightarrow> (error + pyval list) \<times> state" where
  "scrape_reviews book_url s =
     (case asin_of book_url of
        None \<Rightarrow> (Inr [], s)
      | Some asin \<Rightarrow>
          (let reviews_url = base_url @ ''/product-reviews/'' @ asin
           in case make_request reviews_url 3 False s of
                (Inl e, s1) \<Rightarrow> (Inl e, s1)
              | (Inr None, s1) \<Rightarrow> (Inr [], s1)
              | (Inr (Some r), s1) \<Rightarrow>
                  (reviews_of (take 10 (review_containers (content r))), s1)))"

text \<open>
  \<^verbatim>\<open>_scrape_book_details\<close> (lines 346-424), in two parts. \<open>book_record\<close> is lines 352-418:
  what is built from the parsed page.
\<close>

definition book_record :: "string \<Rightarrow> soup \<Rightarrow> error + (string \<times> pyval) list" where
  "book_record book_url sp =
     (let asin = opt_str (asin_of book_url);
          book_data =
            [(''type'', PStr ''book''),
             (''url'', PStr book_url),
             (''asin'', asin),
             (''title'', PStr (title sp)),
             (''author'', PStr (author sp)),
             (''price'', PDict [(''value'', PNone), (''currency'', PNone)]),
             (''listPrice'', PDict [(''value'', PNone), (''currency'', PNone)]),
             (''rating'', PDict [(''stars'', PNone), (''count'', PNone)]),
             (''description'', PStr (description sp)),
             (''features'', PList []),
             (''details'',
                PDict [(''publication_date'', PStr (publication_date sp)),
                       (''page_count'', opt_int (page_count sp)),
                       (''language'', PStr (language sp)),
                       (''isbn'', PStr (isbn sp)),
                       (''publisher'', PNone),
                       (''dimensions'', PNone)]),
             (''categories'', PList (map PStr (categories sp))),
             (''breadcrumbs'', PNone),
             (''images'', PDict [(''primary'', PStr (image_url sp)), (''thumbnails'', PList [])]),
             (''availability'', PDict [(''inStock'', PNone), (''stockText'', PNone)]),
             (''seller'', PDict [(''name'', PNone), (''id'', PNone)])];
          old_price = opt_float (price sp);
          priced =
            (if truthy old_price then
               bind_err (set_item2 ''price'' ''value'' old_price book_data)
                 (set_item2 ''price'' ''currency'' (PStr ''$''))
             else Inr book_data);
          rated =
            bind_err priced (\<lambda>b.
              bind_err (rating sp) (\<lambda>stars.
                let old_rating = opt_float stars
                in if truthy old_rating then set_item2 ''rating'' ''stars'' old_rating b
                   else Inr b));
          counted =
            bind_err rated (\<lambda>b.
              bind_err (review_count sp) (\<lambda>n.
                let old_review_count = opt_int n
                in if truthy old_review_count then set_item2 ''rating'' ''count'' old_review_count b
                   else Inr b))
      in bind_err counted (extract_enhanced_details sp))"

definition scrape_book_details ::
  "string \<Rightarrow> state \<Rightarrow> (error + (string \<times> pyval) list option) \<times> state" where
  "scrape_book_details book_url s =
     (case make_request book_url 3 False s of
        (Inl e, s1) \<Rightarrow> (Inl e, s1)
      | (Inr None, s1) \<Rightarrow> (Inr None, s1)
      | (Inr (Some r), s1) \<Rightarrow>
          (case book_record book_url (content r) of
             Inl e \<Rightarrow> (Inl e, s1)
           | Inr book_data \<Rightarrow>
               if truthy (dict_get (config s1) ''includeReviews'' (PBool False)) then
                 (case scrape_reviews book_url s1 of
                    (Inl e, s2) \<Rightarrow> (Inl e, s2)
                  | (Inr reviews, s2) \<Rightarrow>
                      (Inr (Some (AList.update ''reviews'' (PList reviews) book_data)), s2))
               else (Inr (Some book_data), s1)))"

text \<open>
  \<^verbatim>\<open>_meets_criteria\<close> (lines 902-917). A missing \<^verbatim>\<open>max\<close> stands for \<^verbatim>\<open>float('inf')\<close>, which
  every number is below and nothing else compares with.
\<close>

definition meets_criteria :: "state \<Rightarrow> (string \<times> pyval) list \<Rightarrow> error + bool" where
  "meets_criteria s book_data =
     (let min_rating = dict_get (config s) ''minRating'' (PInt 0)
      in bind_err
           (case map_of book_data ''rating'' of
              None \<Rightarrow> Inr False
            | Some v \<Rightarrow> if truthy v then py_lt v min_rating else Inr False)
           (\<lambda>below.
              if below then Inr False
              else
                (let price_range = dict_get (config s) ''priceRange'' (PDict [])
                 in case map_of book_data ''price'' of
                      None \<Rightarrow> Inr True
                    | Some p \<Rightarrow>
                        if truthy p then
                          (case price_range of
                             PDict bounds \<Rightarrow>
                               (let min_price = dict_get bounds ''min'' (PInt 0);
                                    max_price = map_of bounds ''max''
                                in bind_err (py_le min_price p) (\<lambda>above_min.
                                     if \<not> above_min then Inr False
                                     else
                                       bind_err
                                         (case max_price of
                                            None \<Rightarrow>
                                              (case py_num p of None \<Rightarrow> Inl TypeError
                                               | Some _ \<Rightarrow> Inr True)
                                          | Some m \<Rightarrow> py_le p m)
                                         (\<lambda>below_max. if \<not> below_max then Inr False else Inr True)))
                           | _ \<Rightarrow> Inl AttributeError)
                        else Inr True)))"

subsection \<open>Warm-up and search\<close>

text \<open>\<^verbatim>\<open>_warm_up_session\<close> (lines 62-89); whatever is raised inside is caught.\<close>

definition warm_up_session :: "state \<Rightarrow> bool \<times> state" where
  "warm_up_session s =
     (case make_request ''https://www.amazon.com'' 3 True s of
        (Inl e, s1) \<Rightarrow> (False, s1)
      | (Inr None, s1) \<Rightarrow> (False, s1)
      | (Inr (Some homepage_response), s1) \<Rightarrow>
          if status_code homepage_response = 200 then
            (let (d, s2) = random_uniform 2 5 s1;
                 s3 = sleep Warmup d s2;
                 (r, s4) = random_random s3
             in if r < 0.7 then
                  (let books_url = ''https://www.amazon.com/books-used-books-textbooks/b?ie=UTF8&node=283155''
                   in case make_request books_url 3 True s4 of
                        (Inl e, s5) \<Rightarrow> (False, s5)
                      | (Inr None, s5) \<Rightarrow> (True, s5)
                      | (Inr (Some books_response), s5) \<Rightarrow>
                          if status_code books_response = 200 then
                            (let (d', s6) = random_uniform 1 3 s5 in (True, sleep Warmup d' s6))
                          else (True, s5))
                else (True, s4))
          else (False, s1))"

text \<open>The loop of \<^verbatim>\<open>search_books\<close> over the links (lines 155-162), \<open>i\<close> the index.\<close>

fun scrape_links ::
  "string list \<Rightarrow> nat \<Rightarrow> (string \<times> pyval) list list \<Rightarrow> state
     \<Rightarrow> (error + (string \<times> pyval) list list) \<times> state" where
  "scrape_links [] i books s = (Inr books, s)"
| "scrape_links (book_url # rest) i books s =
     (case (if i > 0 then asyncio_sleep Pacing (request_delay s) s else (Inr (), s)) of
        (Inl e, s1) \<Rightarrow> (Inl e, s1)
      | (Inr _, s1) \<Rightarrow>
          (case scrape_book_details book_url s1 of
             (Inl e, s2) \<Rightarrow> (Inl e, s2)
           | (Inr None, s2) \<Rightarrow> scrape_links rest (Suc i) books s2
           | (Inr (Some book_data), s2) \<Rightarrow>
               if book_data \<noteq> [] then
                 (case meets_criteria s2 book_data of
                    Inl e \<Rightarrow> (Inl e, s2)
                  | Inr ok \<Rightarrow>
                      scrape_links rest (Suc i) (if ok then books @ [book_data] else books) s2)
               else scrape_links rest (Suc i) books s2))"

text \<open>Lines 142-164 of \<^verbatim>\<open>search_books\<close>, after the warm-up.\<close>

definition search_after_warmup ::
  "string \<Rightarrow> state \<Rightarrow> (error + (string \<times> pyval) list list) \<times> state" where
  "search_after_warmup search_term s =
     (case build_search_url search_term s of
        Inl e \<Rightarrow> (Inl e, s)
      | Inr search_url \<Rightarrow>
          (case make_request search_url 3 False s of
             (Inl e, s1) \<Rightarrow> (Inl e, s1)
           | (Inr None, s1) \<Rightarrow> (Inr [], s1)
           | (Inr (Some r), s1) \<Rightarrow>
               (let book_links = extract_book_links (content r);
                    max_results = dict_get (config s1) ''maxResults'' (PInt 100)
                in case slice_to book_links max_results of
                     Inl e \<Rightarrow> (Inl e, s1)
                   | Inr links \<Rightarrow> scrape_links links 0 [] s1)))"

text \<open>\<^verbatim>\<open>search_books\<close> (lines 135-164); the category only appears in a log line.\<close>

definition search_books ::
  "string \<Rightarrow> string option \<Rightarrow> state \<Rightarrow> (error + (string \<times> pyval) list list) \<times> state" where
  "search_books search_term category s =
     (let s1 = (if \<not> session_warmed s then
                  (let (warmed, s') = warm_up_session s in s'\<lparr>session_warmed := True\<rparr>)
                else s)
      in search_after_warmup search_term s1)"

text \<open>
  \<^verbatim>\<open>__init__\<close> (lines 25-33) on a client that \<^verbatim>\<open>main\<close> has opened, in a world given by
  its four feeds.
\<close>

definition scraper_init ::
  "(string \<times> pyval) list \<Rightarrow> real feed \<Rightarrow> nat feed \<Rightarrow> reply feed \<Rightarrow> nat feed \<Rightarrow> state" where
  "scraper_init cfg draws choices answers instants =
     \<lparr>client = OPENED, config = cfg, request_delay = dict_get cfg ''requestDelay'' (PInt 2),
      last_error_code = None, session_cookies = [], consecutive_failures = 0,
      last_success_time = None, session_warmed = False,
      rng = draws, picks = choices, replies = answers, clock = instants, trace = []\<rparr>"

subsection \<open>Example worlds\<close>

text \<open>A page with nothing on it, answers that carry it, and a new scraper with the
  default configuration whose generator always draws one half.\<close>

definition empty_page :: soup where
  "empty_page =
     \<lparr>result_hrefs = [], title = ''Unknown Title'', author = ''Unknown Author'', price = None,
      rating = Inr None, review_count = Inr None, description = [], publication_date = [],
      page_count = None, language = [], isbn = [], categories = [], image_url = [],
      feature_items = [], thumb_srcs = [], availability_text = None, seller_link = None,
      publisher = None, dimensions = None, review_containers = []\<rparr>"

definition plain_response :: "int \<Rightarrow> (string \<times> string) list \<Rightarrow> response" where
  "plain_response code hdrs =
     \<lparr>status_code = code, headers = hdrs, cookies = [], resp_text = [],
      resp_url = ''https://www.amazon.com/dp/B000000000'', content = empty_page\<rparr>"

definition new_scraper :: "reply list \<Rightarrow> state" where
  "new_scraper answers = scraper_init [] (feed [] (1 / 2)) (feed [] 0) (feed answers Failure) (feed [] 0)"

text \<open>The arguments of the adaptive delays among the effects, in order.\<close>

fun adaptive_delays :: "event list \<Rightarrow> (nat \<times> int option) list" where
  "adaptive_delays [] = []"
| "adaptive_delays (Sleep (Adaptive attempt code) d # es) = (attempt, code) # adaptive_delays es"
| "adaptive_delays (e # es) = adaptive_delays es"

text \<open>A \<^verbatim>\<open>Retry-After\<close> value of 310 digits, ten to the power 309.\<close>

definition long_wait :: string where
  "long_wait = ''1000000000000000000000000000000000000000000000000000000000000000000000000000000000000000000000000000000000000000000000000000000000000000000000000000000000000000000000000000000000000000000000000000000000000000000000000000000000000000000000000000000000000000000000000000000000000000000000000000000000000000000000''"

text \<open>The entry of a scraped record under a key is a dict that is not empty.\<close>

definition nonempty_dict_at :: "string \<Rightarrow> (string \<times> pyval) list \<Rightarrow> bool" where
  "nonempty_dict_at k book_data =
     (case map_of book_data k of Some (PDict d) \<Rightarrow> d \<noteq> [] | _ \<Rightarrow> False)"

text \<open>
  \<open>same_session s s'\<close>: going from \<open>s\<close> to \<open>s'\<close> no attribute of the scraper has changed and
  the clock has not been read; the generator, the transport and the list of effects may
  have moved on.
\<close>

definition same_session :: "state \<Rightarrow> state \<Rightarrow> bool" where
  "same_session s s' =
     (client s' = client s \<and> config s' = config s \<and> request_delay s' = request_delay s
      \<and> last_error_code s' = last_error_code s \<and> session_cookies s' = session_cookies s
      \<and> consecutive_failures s' = consecutive_failures s
      \<and> last_success_time s' = last_success_time s \<and> session_warmed s' = session_warmed s
      \<and> clock s' = clock s)"

text \<open>\<open>quiet s s'\<close>: moreover nothing has been sent and nothing has been done.\<close>

definition quiet :: "state \<Rightarrow> state \<Rightarrow> bool" where
  "quiet s s' = (same_session s s' \<and> replies s' = replies s \<and> trace s' = trace s)"

text \<open>The effects in order, the headers of each request left out.\<close>

fun outline :: "event list \<Rightarrow> event list" where
  "outline [] = []"
| "outline (Get target hdrs # es) = Get target [] # outline es"
| "outline (e # es) = e # outline es"


section \<open>Properties\<close>

subsection \<open>Feeds\<close>

lemma next_item_feed [simp]:
  "next_item (feed (x # xs) d) = x" "next_item (feed [] d) = d"
  by (simp_all add: next_item_def feed_def)

lemma later_feed [simp]:
  "later (feed (x # xs) d) = feed xs d" "later (feed [] d) = feed [] d"
  by (auto simp add: later_def feed_def)

subsection \<open>Integers that fit a double\<close>

lemma pow_fits:
  assumes "k \<in> {2, 3, 4::int}" "a < 512"
  shows "\<bar>k ^ a\<bar> < 2 ^ 1024 - 2 ^ 970"
proof -
  have "k ^ a \<le> 4 ^ a" using assms(1) by (auto intro: power_mono)
  also have "(4::int) ^ a \<le> 4 ^ 511" using assms(2) by (intro power_increasing) auto
  also have "(4::int) ^ 511 < 2 ^ 1024 - 2 ^ 970" by simp
  finally have "k ^ a < 2 ^ 1024 - 2 ^ 970" .
  moreover have "0 \<le> k ^ a" using assms(1) by auto
  ultimately show ?thesis by simp
qed

lemma pow2_fits:
  assumes "a < 1024"
  shows "\<bar>(2::int) ^ a\<bar> < 2 ^ 1024 - 2 ^ 970"
proof -
  have "(2::int) ^ a \<le> 2 ^ 1023" using assms by (intro power_increasing) auto
  also have "(2::int) ^ 1023 < 2 ^ 1024 - 2 ^ 970" by simp
  finally show ?thesis by simp
qed

lemma pow_overflows:
  assumes "2 \<le> k" "1024 \<le> a"
  shows "\<not> \<bar>(k::int) ^ a\<bar> < 2 ^ 1024 - 2 ^ 970"
proof -
  have "(2::int) ^ 1024 \<le> 2 ^ a" using assms(2) by (intro power_increasing) auto
  also have "\<dots> \<le> k ^ a" using assms(1) by (intro power_mono) auto
  finally have "(2::int) ^ 1024 \<le> \<bar>k ^ a\<bar>" by simp
  moreover have "(2::int) ^ 1024 - 2 ^ 970 < 2 ^ 1024" by simp
  ultimately show ?thesis by linarith
qed

subsection \<open>The adaptive delay\<close>

lemma delay_before_cap_formula:
  assumes "a < 512"
  shows "delay_before_cap a code u =
     Inr (if code = Some 503 then 2 * 3 ^ a + (10 + 20 * u)
          else if code = Some 429 then 2 * 2 ^ a + (15 + 30 * u)
          else if code = Some 403 then 2 * 4 ^ a + (30 + 60 * u)
          else 2 * 2 ^ a + (5 + 10 * u))"
  using pow_fits[of 2 a] pow_fits[of 3 a] pow_fits[of 4 a] assms
  by (simp add: delay_before_cap_def float_of_int_def)

lemma delay_before_cap_cases:
  "delay_before_cap a code u = Inr d \<Longrightarrow>
     (\<exists>k lo hi. k \<in> {2,3,4::int} \<and> d = 2 * real_of_int (k ^ a) + (lo + (hi - lo) * u) \<and>
        (k, lo, hi) = (if code = Some 503 then (3, 10, 30) else if code = Some 429 then (2, 15, 45)
             else if code = Some 403 then (4, 30, 90) else (2, 5, 15)))"
  by (auto simp add: delay_before_cap_def float_of_int_def split: if_splits)

lemma delay_before_cap_mono:
  assumes "a \<le> b" "delay_before_cap a code u = Inr da" "delay_before_cap b code u = Inr db"
  shows "da \<le> db"
proof -
  have p: "\<And>k::int. 1 \<le> k \<Longrightarrow> real_of_int (k ^ a) \<le> real_of_int (k ^ b)"
    using assms(1) by (simp add: power_increasing)
  show ?thesis
    using delay_before_cap_cases[OF assms(2)] delay_before_cap_cases[OF assms(3)] p[of 2] p[of 3] p[of 4]
    by (auto split: if_splits)
qed

lemma adaptive_delay_le: "adaptive_delay a code u = Inr d \<Longrightarrow> d \<le> 600"
  by (auto simp: adaptive_delay_def split: sum.splits)

lemma adaptive_delay_None_fits:
  "a < 1024 \<Longrightarrow> adaptive_delay a None u = Inr (min (2 * 2 ^ a + (5 + 10 * u)) 600)"
  using pow2_fits[of a] by (simp add: adaptive_delay_def delay_before_cap_def float_of_int_def)

lemma adaptive_delay_overflows:
  "1024 \<le> a \<Longrightarrow> adaptive_delay a code u = Inl OverflowError"
  using pow_overflows[of 2 a] pow_overflows[of 3 a] pow_overflows[of 4 a]
  by (simp add: adaptive_delay_def delay_before_cap_def float_of_int_def)

lemma adaptive_delay_strategy_cases:
  "(\<exists>e. adaptive_delay a code (next_item (rng s)) = Inl e \<and> adaptive_delay_strategy a code s = (Inl e, s)) \<or>
   (\<exists>d. d \<le> 600 \<and> adaptive_delay a code (next_item (rng s)) = Inr d \<and>
      adaptive_delay_strategy a code s =
        (Inr (), s\<lparr>rng := later (rng s), trace := trace s @ [Sleep (Adaptive a code) d]\<rparr>))"
  using adaptive_delay_le[of a code "next_item (rng s)"]
  by (cases "adaptive_delay a code (next_item (rng s))") (auto simp: adaptive_delay_strategy_def sleep_def)

subsection \<open>Reset and intelligent backoff\<close>

lemma reset_session_strategy_eq:
  "reset_session_strategy s =
     s\<lparr>session_cookies := [], last_error_code := None, client := CLOSED, trace := trace s @ [Aclose]\<rparr>"
  by (simp add: reset_session_strategy_def setup_http_client_def)

lemma intelligent_backoff_eq:
  "intelligent_backoff f s =
     (let u = next_item (rng s); s1 = s\<lparr>rng := later (rng s)\<rparr>;
          d = (if f \<le> 2 then 5 + 10 * u else if f \<le> 5 then 30 + 60 * u else 300 + 300 * u)
      in sleep (Intelligent f) d (if f = 3 \<or> 5 < f then reset_session_strategy s1 else s1))"
  by (simp add: intelligent_backoff_def random_uniform_def Let_def)

lemma intelligent_backoff_trace:
  "drop (length (trace s)) (trace (intelligent_backoff f s)) =
     (if f = 3 \<or> 5 < f then [Aclose] else []) @
     [Sleep (Intelligent f) (if f \<le> 2 then 5 + 10 * next_item (rng s) else if f \<le> 5 then 30 + 60 * next_item (rng s) else 300 + 300 * next_item (rng s))]"
  by (simp add: intelligent_backoff_eq reset_session_strategy_eq sleep_def Let_def)

subsection \<open>The claims about the backoff policies and the reset\<close>

text \<open>
  C3. \<^verbatim>\<open>_intelligent_backoff\<close> resets the session exactly when the count is 3 or above 5:
  among the effects it adds, an \<^verbatim>\<open>aclose\<close> precedes the sleep in those cases and in no
  other. With a draw in the unit interval the sleep lies in [5,15] up to 2 failures, in
  [30,90] from 3 to 5, and in [300,600] above.
\<close>

theorem intelligent_backoff_tiers:
  assumes "0 \<le> next_item (rng s)" and "next_item (rng s) \<le> 1"
  shows "\<exists>d. drop (length (trace s)) (trace (intelligent_backoff f s)) =
               (if f = 3 \<or> 5 < f then [Aclose, Sleep (Intelligent f) d]
                else [Sleep (Intelligent f) d])
           \<and> intelligent_backoff f s =
               sleep (Intelligent f) d
                 (if f = 3 \<or> 5 < f then reset_session_strategy (s\<lparr>rng := later (rng s)\<rparr>)
                  else s\<lparr>rng := later (rng s)\<rparr>)
           \<and> (if f \<le> 2 then 5 \<le> d \<and> d \<le> 15
               else if f \<le> 5 then 30 \<le> d \<and> d \<le> 90
               else 300 \<le> d \<and> d \<le> 600)"
proof -
  let ?u = "next_item (rng s)"
  let ?d = "if f \<le> 2 then 5 + 10 * ?u else if f \<le> 5 then 30 + 60 * ?u else 300 + 300 * ?u"
  have "drop (length (trace s)) (trace (intelligent_backoff f s)) =
          (if f = 3 \<or> 5 < f then [Aclose, Sleep (Intelligent f) ?d]
           else [Sleep (Intelligent f) ?d])"
    by (simp add: intelligent_backoff_trace)
  moreover have "intelligent_backoff f s =
          sleep (Intelligent f) ?d
            (if f = 3 \<or> 5 < f then reset_session_strategy (s\<lparr>rng := later (rng s)\<rparr>)
             else s\<lparr>rng := later (rng s)\<rparr>)"
    by (simp add: intelligent_backoff_eq Let_def)
  moreover have "if f \<le> 2 then 5 \<le> ?d \<and> ?d \<le> 15
                 else if f \<le> 5 then 30 \<le> ?d \<and> ?d \<le> 90
                 else 300 \<le> ?d \<and> ?d \<le> 600"
    using assms by simp
  ultimately show ?thesis by blast
qed

theorem intelligent_backoff_tiers_witness:
  "0 \<le> next_item (rng (new_scraper [])) \<and> next_item (rng (new_scraper [])) \<le> 1
   \<and> trace (intelligent_backoff 2 (new_scraper [])) = [Sleep (Intelligent 2) 10]
   \<and> trace (intelligent_backoff 3 (new_scraper [])) = [Aclose, Sleep (Intelligent 3) 60]
   \<and> trace (intelligent_backoff 4 (new_scraper [])) = [Sleep (Intelligent 4) 60]
   \<and> trace (intelligent_backoff 6 (new_scraper [])) = [Aclose, Sleep (Intelligent 6) 450]"
  using intelligent_backoff_tiers [of "new_scraper []" 2]
    intelligent_backoff_tiers [of "new_scraper []" 3]
    intelligent_backoff_tiers [of "new_scraper []" 4]
    intelligent_backoff_tiers [of "new_scraper []" 6]
  by (simp add: new_scraper_def scraper_init_def intelligent_backoff_eq
      reset_session_strategy_eq sleep_def Let_def)

text \<open>
  C4. For a fixed draw the delay before the cap does not decrease with the attempt index
  (and is computed for every smaller index once it is for a larger one); below index 512
  it is 2 times the power of 3, 2, 4 or 2 for the codes 503, 429, 403 and any other, plus
  the jitter of that code; a delay that is computed never exceeds 600 after the cap; and
  \<^verbatim>\<open>_adaptive_delay_strategy\<close> reads the two arguments and one draw of the generator, it
  changes nothing but the generator and the list of effects.
\<close>

theorem adaptive_delay_monotone_capped_pure:
  "(a \<le> b \<and> delay_before_cap b code u = Inr db \<longrightarrow>
      (\<exists>da. delay_before_cap a code u = Inr da \<and> da \<le> db))
   \<and> (b < 512 \<longrightarrow>
        delay_before_cap b code u =
          Inr (if code = Some 503 then 2 * 3 ^ b + (10 + 20 * u)
               else if code = Some 429 then 2 * 2 ^ b + (15 + 30 * u)
               else if code = Some 403 then 2 * 4 ^ b + (30 + 60 * u)
               else 2 * 2 ^ b + (5 + 10 * u)))
   \<and> (adaptive_delay b code u = Inr d \<longrightarrow> d \<le> 600)
   \<and> adaptive_delay_strategy b code s =
       (case adaptive_delay b code (next_item (rng s)) of
          Inl e \<Rightarrow> (Inl e, s)
        | Inr delay \<Rightarrow>
            (Inr (), s\<lparr>rng := later (rng s),
                       trace := trace s @ [Sleep (Adaptive b code) delay]\<rparr>))"
proof -
  have "\<exists>da. delay_before_cap a code u = Inr da \<and> da \<le> db"
    if le: "a \<le> b" and b: "delay_before_cap b code u = Inr db"
  proof -
    have small: "\<bar>k ^ a\<bar> < 2 ^ 1024 - 2 ^ 970" if "\<bar>k ^ b\<bar> < 2 ^ 1024 - 2 ^ 970" "1 \<le> k" for k :: int
    proof -
      have "k ^ a \<le> k ^ b" using le that(2) by (intro power_increasing) auto
      moreover have "0 \<le> k ^ a" using that(2) by simp
      ultimately show ?thesis using that(1) by simp
    qed
    have "\<exists>da. delay_before_cap a code u = Inr da"
      using b small[of 2] small[of 3] small[of 4]
      by (auto simp: delay_before_cap_def float_of_int_def split: if_splits)
    then obtain da where a: "delay_before_cap a code u = Inr da" ..
    with delay_before_cap_mono[OF le a b] show ?thesis by blast
  qed
  moreover have "adaptive_delay_strategy b code s =
       (case adaptive_delay b code (next_item (rng s)) of
          Inl e \<Rightarrow> (Inl e, s)
        | Inr delay \<Rightarrow>
            (Inr (), s\<lparr>rng := later (rng s),
                       trace := trace s @ [Sleep (Adaptive b code) delay]\<rparr>))"
    by (simp add: adaptive_delay_strategy_def sleep_def split: sum.splits)
  ultimately show ?thesis
    using delay_before_cap_formula[of b code u] adaptive_delay_le[of b code u d] by blast
qed

theorem adaptive_delay_monotone_capped_pure_witness:
  "(1::nat) \<le> 2 \<and> (2::nat) < 512
   \<and> delay_before_cap 2 (Some 503) (1 / 2) = Inr 38
   \<and> delay_before_cap 1 (Some 503) (1 / 2) = Inr 26
   \<and> adaptive_delay 2 (Some 503) (1 / 2) = Inr 38
   \<and> adaptive_delay 9 (Some 403) (1 / 2) = Inr 600"
  using adaptive_delay_monotone_capped_pure [of 1 2 "Some 503" "1 / 2" 38 38 "new_scraper []"]
    adaptive_delay_monotone_capped_pure [of 9 9 "Some 403" "1 / 2" 524348 600 "new_scraper []"]
  by (simp add: adaptive_delay_def delay_before_cap_def float_of_int_def)

text \<open>
  C7, as the code has it. After \<^verbatim>\<open>_reset_session_strategy\<close> the cookie store is empty,
  \<^verbatim>\<open>_last_error_code\<close> is \<^verbatim>\<open>None\<close>, the client has been closed, and the one effect is that
  \<^verbatim>\<open>aclose\<close>: no request is sent, the warm-up is not entered and its flag is as before.
  The count of consecutive failures is not zeroed: it keeps its value.
\<close>

theorem reset_session_strategy_effect:
  "session_cookies (reset_session_strategy s) = []
   \<and> last_error_code (reset_session_strategy s) = None
   \<and> consecutive_failures (reset_session_strategy s) = consecutive_failures s
   \<and> client (reset_session_strategy s) = CLOSED
   \<and> trace (reset_session_strategy s) = trace s @ [Aclose]
   \<and> session_warmed (reset_session_strategy s) = session_warmed s
   \<and> replies (reset_session_strategy s) = replies s"
  by (simp add: reset_session_strategy_eq)

text \<open>
  C7 as stated fails: a scraper with three failures behind it still counts three after
  the reset, and its client, closed and not replaced, refuses the next request.
\<close>

theorem reset_session_strategy_counterexample:
  "consecutive_failures
     (reset_session_strategy ((new_scraper [])\<lparr>consecutive_failures := 3\<rparr>)) = 3
   \<and> fst (client_get ''https://www.amazon.com'' []
        (reset_session_strategy ((new_scraper [])\<lparr>consecutive_failures := 3\<rparr>)))
     = Inl RuntimeError"
  by (simp add: reset_session_strategy_eq new_scraper_def scraper_init_def client_get_def)

subsection \<open>What the steps of a fetch leave alone\<close>

lemma same_session_refl [simp]: "same_session s s"
  by (simp add: same_session_def)

lemma same_session_trans: "same_session s s1 \<Longrightarrow> same_session s1 s2 \<Longrightarrow> same_session s s2"
  by (simp add: same_session_def)

lemma quiet_refl: "quiet s s"
  by (simp add: quiet_def)

lemma quiet_trans: "quiet s s1 \<Longrightarrow> quiet s1 s2 \<Longrightarrow> quiet s s2"
  by (simp add: quiet_def same_session_def)

lemma quiet_choice: "quiet s s' \<Longrightarrow> quiet s (snd (random_choice xs s'))"
  by (simp add: quiet_def same_session_def random_choice_def)

lemma quiet_random: "quiet s s' \<Longrightarrow> quiet s (snd (random_random s'))"
  by (simp add: quiet_def same_session_def random_random_def)

lemma quiet_uniform: "quiet s s' \<Longrightarrow> quiet s (snd (random_uniform a b s'))"
  by (simp add: quiet_def same_session_def random_uniform_def)

lemma quiet_bind:
  "quiet s (snd m) \<Longrightarrow> (\<And>x s1. quiet s s1 \<Longrightarrow> quiet s (snd (f x s1)))
     \<Longrightarrow> quiet s (snd (let (x, s1) = m in f x s1))"
  by (cases m) simp

lemma quiet_let: "(\<And>x. quiet s (snd (f x))) \<Longrightarrow> quiet s (snd (Let t f))"
  by simp

lemma quiet_snd_if:
  "(c \<Longrightarrow> quiet s (snd a)) \<Longrightarrow> (\<not> c \<Longrightarrow> quiet s (snd b)) \<Longrightarrow> quiet s (snd (if c then a else b))"
  by simp

lemma quiet_pair: "quiet s s' \<Longrightarrow> quiet s (snd (x, s'))"
  by simp

lemma get_realistic_headers_quiet: "quiet s (snd (get_realistic_headers t s))"
  unfolding get_realistic_headers_def
  by (rule quiet_bind quiet_let quiet_snd_if quiet_pair quiet_choice quiet_random quiet_refl
      | assumption)+

lemma intelligent_backoff_fields [simp]:
  "consecutive_failures (intelligent_backoff f s) = consecutive_failures s"
  "config (intelligent_backoff f s) = config s"
  "replies (intelligent_backoff f s) = replies s"
  "request_delay (intelligent_backoff f s) = request_delay s"
  "session_warmed (intelligent_backoff f s) = session_warmed s"
  by (simp_all add: intelligent_backoff_eq reset_session_strategy_eq sleep_def Let_def)

lemma get_realistic_headers_cases:
  obtains hdrs s1 where "get_realistic_headers t s = (hdrs, s1)" "quiet s s1"
  using get_realistic_headers_quiet [of s t] by (cases "get_realistic_headers t s") auto

lemma not_closed [simp]: "(c \<noteq> CLOSED) = (c = OPENED)"
  by (cases c) auto

lemmas fetch_steps =
  adaptive_delay_strategy_def sleep_def random_uniform_def random_random_def client_get_def Let_def

lemma send_request_same_session: "same_session s (snd (send_request t a s))"
proof -
  obtain hdrs s1 where g: "get_realistic_headers t s = (hdrs, s1)" and q: "quiet s s1"
    by (rule get_realistic_headers_cases)
  show ?thesis
    using q unfolding send_request_def g
    by (auto simp: quiet_def same_session_def fetch_steps
        split: sum.splits reply.splits if_splits)
qed

lemma send_request_answer:
  assumes "send_request t a s = (Inr r, s')"
  shows "client s = OPENED \<and> next_item (replies s) = Answer r \<and> replies s' = later (replies s)"
proof -
  obtain hdrs s1 where g: "get_realistic_headers t s = (hdrs, s1)" and q: "quiet s s1"
    by (rule get_realistic_headers_cases)
  show ?thesis
    using q assms unfolding send_request_def g
    by (auto simp: quiet_def same_session_def fetch_steps
        split: sum.splits reply.splits if_splits)
qed

lemma send_request_replies:
  "replies (snd (send_request t a s)) = replies s
   \<or> replies (snd (send_request t a s)) = later (replies s)"
proof -
  obtain hdrs s1 where g: "get_realistic_headers t s = (hdrs, s1)" and q: "quiet s s1"
    by (rule get_realistic_headers_cases)
  show ?thesis
    using q unfolding send_request_def g
    by (auto simp: quiet_def same_session_def fetch_steps
        split: sum.splits reply.splits if_splits)
qed

lemma send_request_overflow:
  assumes "1024 \<le> a"
  shows "fst (send_request t a s) = Inl OverflowError"
proof -
  obtain hdrs s1 where g: "get_realistic_headers t s = (hdrs, s1)" and q: "quiet s s1"
    by (rule get_realistic_headers_cases)
  show ?thesis
    using assms unfolding send_request_def g
    by (simp add: adaptive_delay_strategy_def adaptive_delay_overflows)
qed

lemmas response_steps =
  handle_response_def handle_captcha_scenario_def datetime_now_def fetch_steps

text \<open>The branches of \<open>handle_response\<close>, one by one.\<close>

lemma handle_response_captcha:
  assumes "is_captcha_page r"
  shows "\<exists>s'. handle_response m a c r s =
           (Inr (if c < 3 \<and> int a < m - 1 then Continue (Suc c) else Return None), s')
         \<and> consecutive_failures s' = consecutive_failures s + 1
         \<and> config s' = config s \<and> replies s' = replies s
         \<and> request_delay s' = request_delay s \<and> session_warmed s' = session_warmed s"
  using assms by (simp add: response_steps)

lemma handle_response_200:
  assumes "\<not> is_captcha_page r" "status_code r = 200"
  shows "handle_response m a c r s =
           (Inr (Return (Some r)),
            s\<lparr>last_error_code := None, consecutive_failures := 0,
              clock := later (clock s), last_success_time := Some (next_item (clock s)),
              session_cookies :=
                (if cookies r \<noteq> [] then dict_update (session_cookies s) (cookies r)
                 else session_cookies s)\<rparr>)"
  using assms by (simp add: response_steps)

lemma handle_response_404:
  assumes "\<not> is_captcha_page r" "status_code r = 404"
  shows "handle_response m a c r s = (Inr (Return None), s\<lparr>last_error_code := Some 404\<rparr>)"
  using assms by (simp add: response_steps)

lemma handle_response_503:
  assumes "\<not> is_captcha_page r" "status_code r = 503"
  shows "handle_response m a c r s =
          (let s2 = s\<lparr>last_error_code := Some 503,
                       consecutive_failures := consecutive_failures s + 1\<rparr>
           in if int a < m - 1 then
                (case adaptive_delay a (Some 503) (next_item (rng s)) of
                   Inl e \<Rightarrow> (Inl e, s2)
                 | Inr d \<Rightarrow>
                     (Inr (Continue c),
                      let s3 = s2\<lparr>rng := later (rng s),
                                   trace := trace s @ [Sleep (Adaptive a (Some 503)) d]\<rparr>
                      in if 3 \<le> consecutive_failures s + 1
                         then intelligent_backoff (consecutive_failures s + 1) s3 else s3))
              else (Inr (Continue c), s2))"
  using assms by (simp add: response_steps split: sum.splits)

lemma handle_response_403:
  assumes "\<not> is_captcha_page r" "status_code r = 403"
  shows "handle_response m a c r s =
          (let s2 = s\<lparr>last_error_code := Some 403,
                       consecutive_failures := consecutive_failures s + 1\<rparr>
           in if int a < m - 1 then
                (case adaptive_delay a (Some 403) (next_item (rng s)) of
                   Inl e \<Rightarrow> (Inl e, s2)
                 | Inr d \<Rightarrow>
                     (Inr (Continue c),
                      let s3 = s2\<lparr>rng := later (rng s),
                                   trace := trace s @ [Sleep (Adaptive a (Some 403)) d]\<rparr>
                      in if 2 \<le> consecutive_failures s + 1
                         then intelligent_backoff (consecutive_failures s + 1) s3 else s3))
              else (Inr (Continue c), s2))"
  using assms by (simp add: response_steps split: sum.splits)

lemma handle_response_429:
  assumes "\<not> is_captcha_page r" "status_code r = 429"
  shows "handle_response m a c r s =
          (let s2 = s\<lparr>last_error_code := Some 429,
                       consecutive_failures := consecutive_failures s + 1\<rparr>;
               otherwise =
                 (case adaptive_delay a (Some 429) (next_item (rng s)) of
                    Inl e \<Rightarrow> (Inl e, s2)
                  | Inr d \<Rightarrow>
                      (Inr (Continue c),
                       s2\<lparr>rng := later (rng s),
                          trace := trace s @ [Sleep (Adaptive a (Some 429)) d]\<rparr>))
           in case headers_get (headers r) ''Retry-After'' of
                None \<Rightarrow> otherwise
              | Some v \<Rightarrow>
                  if isdigit v then
                    (case py_int v of
                       Inl e \<Rightarrow> (Inl e, s2)
                     | Inr n \<Rightarrow>
                        (case float_of_int n of
                           Inl e \<Rightarrow> (Inl e, s2\<lparr>rng := later (rng s)\<rparr>)
                         | Inr seconds \<Rightarrow>
                             (Inr (Continue c),
                              s2\<lparr>rng := later (rng s),
                                 trace := trace s @
                                   [Sleep RetryAfter (seconds + (5 + 10 * next_item (rng s)))]\<rparr>)))
                  else otherwise)"
  using assms by (simp add: response_steps isdigit_def split: sum.splits option.splits)

lemma handle_response_other:
  assumes "\<not> is_captcha_page r" "status_code r \<notin> {200, 503, 429, 403, 404}"
  shows "handle_response m a c r s =
          (let s2 = s\<lparr>last_error_code := Some (status_code r),
                       consecutive_failures := consecutive_failures s + 1\<rparr>
           in if int a < m - 1 then
                (case adaptive_delay a None (next_item (rng s)) of
                   Inl e \<Rightarrow> (Inl e, s2)
                 | Inr d \<Rightarrow>
                     (Inr (Continue c),
                      s2\<lparr>rng := later (rng s),
                         trace := trace s @ [Sleep (Adaptive a None) d]\<rparr>))
              else (Inr (Continue c), s2))"
  using assms by (simp add: response_steps split: sum.splits)

lemma response_kinds [case_names captcha ok unavailable limited forbidden missing other]:
  obtains "is_captcha_page r"
  | "\<not> is_captcha_page r" "status_code r = 200"
  | "\<not> is_captcha_page r" "status_code r = 503"
  | "\<not> is_captcha_page r" "status_code r = 429"
  | "\<not> is_captcha_page r" "status_code r = 403"
  | "\<not> is_captcha_page r" "status_code r = 404"
  | "\<not> is_captcha_page r" "status_code r \<notin> {200, 503, 429, 403, 404}"
  by auto

lemma handle_response_failures:
  "consecutive_failures (snd (handle_response m a c r s)) =
     (if is_captcha_page r then consecutive_failures s + 1
      else if status_code r = 200 then 0
      else if status_code r = 404 then consecutive_failures s
      else consecutive_failures s + 1)"
proof (cases r rule: response_kinds)
  case captcha
  then show ?thesis using handle_response_captcha [of r m a c s] by auto
next
  case ok
  then show ?thesis by (simp add: handle_response_200)
next
  case unavailable
  then show ?thesis by (simp add: handle_response_503 Let_def split: sum.splits)
next
  case limited
  then show ?thesis by (simp add: handle_response_429 Let_def split: sum.splits option.splits)
next
  case forbidden
  then show ?thesis by (simp add: handle_response_403 Let_def split: sum.splits)
next
  case missing
  then show ?thesis by (simp add: handle_response_404)
next
  case other
  then show ?thesis by (simp add: handle_response_other Let_def split: sum.splits)
qed

lemma handle_response_fields:
  "config (snd (handle_response m a c r s)) = config s
   \<and> replies (snd (handle_response m a c r s)) = replies s
   \<and> request_delay (snd (handle_response m a c r s)) = request_delay s
   \<and> session_warmed (snd (handle_response m a c r s)) = session_warmed s"
proof (cases r rule: response_kinds)
  case captcha
  then show ?thesis using handle_response_captcha [of r m a c s] by auto
next
  case ok
  then show ?thesis by (simp add: handle_response_200)
next
  case unavailable
  then show ?thesis by (simp add: handle_response_503 Let_def split: sum.splits)
next
  case limited
  then show ?thesis by (simp add: handle_response_429 Let_def split: sum.splits option.splits)
next
  case forbidden
  then show ?thesis by (simp add: handle_response_403 Let_def split: sum.splits)
next
  case missing
  then show ?thesis by (simp add: handle_response_404)
next
  case other
  then show ?thesis by (simp add: handle_response_other Let_def split: sum.splits)
qed

lemma handle_response_returns:
  "fst (handle_response m a c r s) = Inr (Return (Some r')) \<longleftrightarrow>
     r' = r \<and> status_code r = 200 \<and> \<not> is_captcha_page r"
proof (cases r rule: response_kinds)
  case captcha
  then show ?thesis using handle_response_captcha [of r m a c s] by (auto split: if_splits)
next
  case ok
  then show ?thesis by (auto simp add: handle_response_200)
next
  case unavailable
  then show ?thesis by (simp add: handle_response_503 Let_def split: sum.splits)
next
  case limited
  then show ?thesis by (simp add: handle_response_429 Let_def split: sum.splits option.splits)
next
  case forbidden
  then show ?thesis by (simp add: handle_response_403 Let_def split: sum.splits)
next
  case missing
  then show ?thesis by (simp add: handle_response_404)
next
  case other
  then show ?thesis by (simp add: handle_response_other Let_def split: sum.splits)
qed

lemma on_exception_failures:
  "consecutive_failures (snd (on_exception m a c s)) = consecutive_failures s + 1"
  by (simp add: on_exception_def fetch_steps split: sum.splits)

lemma on_exception_fields:
  "config (snd (on_exception m a c s)) = config s
   \<and> replies (snd (on_exception m a c s)) = replies s
   \<and> request_delay (snd (on_exception m a c s)) = request_delay s
   \<and> session_warmed (snd (on_exception m a c s)) = session_warmed s"
  by (simp add: on_exception_def fetch_steps split: sum.splits)

lemma on_exception_result:
  "fst (on_exception m a c s) =
     (if int a < m - 1 then
        (case adaptive_delay a None (next_item (rng s)) of
           Inl e \<Rightarrow> Inl e | Inr d \<Rightarrow> Inr (Continue c))
      else Inr (Return None))"
  by (simp add: on_exception_def fetch_steps split: sum.splits)

text \<open>One pass through the loop body.\<close>

lemma attempt_body_fields:
  "config (snd (attempt_body t m a c s)) = config s
   \<and> request_delay (snd (attempt_body t m a c s)) = request_delay s
   \<and> session_warmed (snd (attempt_body t m a c s)) = session_warmed s"
proof -
  obtain x s1 where sr: "send_request t a s = (x, s1)" by fastforce
  have f1: "config s1 = config s \<and> request_delay s1 = request_delay s
            \<and> session_warmed s1 = session_warmed s"
    using send_request_same_session [of s t a] sr by (simp add: same_session_def)
  show ?thesis
  proof (cases x)
    case (Inl e)
    then show ?thesis
      using sr f1 on_exception_fields [of m a c s1] by (simp add: attempt_body_def)
  next
    case (Inr r1)
    obtain y s2 where hr: "handle_response m a c r1 s1 = (y, s2)" by fastforce
    have f2: "config s2 = config s \<and> request_delay s2 = request_delay s
              \<and> session_warmed s2 = session_warmed s"
      using handle_response_fields [of m a c r1 s1] hr f1 by simp
    show ?thesis
      using sr Inr hr f2 on_exception_fields [of m a c s2]
      by (cases y) (simp_all add: attempt_body_def)
  qed
qed

lemma attempt_body_returns:
  assumes "attempt_body t m a c s = (Inr (Return (Some r)), s')"
  shows "status_code r = 200 \<and> \<not> is_captcha_page r \<and> consecutive_failures s' = 0"
proof -
  obtain x s1 where sr: "send_request t a s = (x, s1)" by fastforce
  show ?thesis
  proof (cases x)
    case (Inl e)
    then show ?thesis
      using assms sr on_exception_result [of m a c s1]
      by (auto simp: attempt_body_def split: if_splits sum.splits)
  next
    case (Inr r1)
    obtain y s2 where hr: "handle_response m a c r1 s1 = (y, s2)" by fastforce
    show ?thesis
    proof (cases y)
      case (Inl e)
      then show ?thesis
        using assms sr Inr hr on_exception_result [of m a c s2]
        by (auto simp: attempt_body_def split: if_splits sum.splits)
    next
      case (Inr f)
      then have "f = Return (Some r)" "s' = s2"
        using assms sr \<open>x = Inr r1\<close> hr by (auto simp: attempt_body_def)
      then show ?thesis
        using handle_response_returns [of m a c r1 s1 r] handle_response_failures [of m a c r1 s1]
          hr Inr by auto
    qed
  qed
qed

lemma attempt_body_failures:
  "consecutive_failures s \<le> consecutive_failures (snd (attempt_body t m a c s))
   \<or> (\<exists>r. fst (attempt_body t m a c s) = Inr (Return (Some r)))"
proof -
  obtain x s1 where sr: "send_request t a s = (x, s1)" by fastforce
  have c1: "consecutive_failures s1 = consecutive_failures s"
    using send_request_same_session [of s t a] sr by (simp add: same_session_def)
  show ?thesis
  proof (cases x)
    case (Inl e)
    then show ?thesis
      using sr c1 on_exception_failures [of m a c s1] by (simp add: attempt_body_def)
  next
    case (Inr r1)
    obtain y s2 where hr: "handle_response m a c r1 s1 = (y, s2)" by fastforce
    have c2: "consecutive_failures s2 =
       (if is_captcha_page r1 then consecutive_failures s + 1
        else if status_code r1 = 200 then 0
        else if status_code r1 = 404 then consecutive_failures s
        else consecutive_failures s + 1)"
      using handle_response_failures [of m a c r1 s1] hr c1 by simp
    show ?thesis
    proof (cases y)
      case (Inl e)
      have "fst (handle_response m a c r1 s1) \<noteq> Inr (Return (Some r1))" using hr Inl by simp
      then have "\<not> (status_code r1 = 200 \<and> \<not> is_captcha_page r1)"
        using handle_response_returns [of m a c r1 s1 r1] by simp
      then show ?thesis
        using sr Inr hr Inl c2 on_exception_failures [of m a c s2]
        by (auto simp: attempt_body_def)
    next
      case (Inr f)
      show ?thesis
      proof (cases "status_code r1 = 200 \<and> \<not> is_captcha_page r1")
        case True
        then have "fst (handle_response m a c r1 s1) = Inr (Return (Some r1))"
          using handle_response_returns [of m a c r1 s1 r1] by simp
        then show ?thesis using sr \<open>x = Inr r1\<close> hr by (auto simp: attempt_body_def)
      next
        case False
        then show ?thesis using sr \<open>x = Inr r1\<close> hr Inr c2 by (auto simp: attempt_body_def)
      qed
    qed
  qed
qed

lemma attempt_body_no_raise:
  assumes "int a < m" "m \<le> 1025"
  shows "\<exists>f. fst (attempt_body t m a c s) = Inr f"
proof -
  have fits: "\<And>u. int a < m - 1 \<Longrightarrow> \<exists>d. adaptive_delay a None u = Inr d"
    using assms(2) by (simp add: adaptive_delay_None_fits)
  have ex: "\<exists>f. fst (on_exception m a c s') = Inr f" for s'
    using fits [of "next_item (rng s')"] by (auto simp: on_exception_result)
  show ?thesis
    using ex by (auto simp: attempt_body_def split: prod.splits sum.splits)
qed

lemma all_attempts_failed_eq:
  "all_attempts_failed s =
     (Inr None,
      let s1 = s\<lparr>consecutive_failures := consecutive_failures s + 1\<rparr>
      in if 5 \<le> consecutive_failures s + 1
         then intelligent_backoff (consecutive_failures s + 1) s1 else s1)"
  by (simp add: all_attempts_failed_def Let_def)

lemma make_request_loop_unfold:
  "make_request_loop t m a c s =
     (if int a < m then
        (case attempt_body t m a c s of
           (Inl e, s1) \<Rightarrow> (Inl e, s1)
         | (Inr (Return result), s1) \<Rightarrow> (Inr result, s1)
         | (Inr (Continue c'), s1) \<Rightarrow> make_request_loop t m (Suc a) c' s1)
      else all_attempts_failed s)"
  by (rule make_request_loop.simps)

lemma make_request_loop_cases [consumes 1, case_names exhausted raised returned continued]:
  assumes "make_request_loop t m a c s = (res, s')"
  obtains "\<not> int a < m" "all_attempts_failed s = (res, s')"
  | e where "int a < m" "attempt_body t m a c s = (Inl e, s')" "res = Inl e"
  | result where "int a < m" "attempt_body t m a c s = (Inr (Return result), s')" "res = Inr result"
  | c' s1 where "int a < m" "attempt_body t m a c s = (Inr (Continue c'), s1)"
      "make_request_loop t m (Suc a) c' s1 = (res, s')"
proof (cases "int a < m")
  case False
  then show ?thesis using assms that(1) by (simp add: make_request_loop_unfold)
next
  case True
  obtain x s1 where ab: "attempt_body t m a c s = (x, s1)" by fastforce
  show ?thesis
  proof (cases x)
    case (Inl e)
    then show ?thesis using assms True ab that(2) by (simp add: make_request_loop_unfold)
  next
    case (Inr f)
    then show ?thesis
      using assms True ab that(3,4) by (cases f) (simp_all add: make_request_loop_unfold)
  qed
qed

lemma all_attempts_failed_spec:
  "fst (all_attempts_failed s) = Inr None
   \<and> consecutive_failures (snd (all_attempts_failed s)) = consecutive_failures s + 1
   \<and> config (snd (all_attempts_failed s)) = config s
   \<and> replies (snd (all_attempts_failed s)) = replies s
   \<and> request_delay (snd (all_attempts_failed s)) = request_delay s
   \<and> session_warmed (snd (all_attempts_failed s)) = session_warmed s"
  by (simp add: all_attempts_failed_eq Let_def)

lemma make_request_loop_spec:
  assumes "make_request_loop t m a c s = (res, s')"
  shows "config s' = config s \<and> request_delay s' = request_delay s
         \<and> session_warmed s' = session_warmed s
         \<and> (case res of
               Inr (Some r) \<Rightarrow>
                 status_code r = 200 \<and> \<not> is_captcha_page r \<and> consecutive_failures s' = 0
             | _ \<Rightarrow> consecutive_failures s \<le> consecutive_failures s')
         \<and> (m \<le> 1025 \<longrightarrow> (\<exists>x. res = Inr x))"
  using assms
proof (induction "nat (m - int a)" arbitrary: a c s)
  case 0
  then have "\<not> int a < m" by simp
  with 0 have "all_attempts_failed s = (res, s')" by (simp add: make_request_loop_unfold)
  then show ?case using all_attempts_failed_spec [of s] by auto
next
  case (Suc n)
  from Suc.prems show ?case
  proof (cases rule: make_request_loop_cases)
    case exhausted
    then show ?thesis using all_attempts_failed_spec [of s] by auto
  next
    case (raised e)
    then show ?thesis
      using attempt_body_fields [of t m a c s] attempt_body_failures [of s t m a c]
        attempt_body_no_raise [of a m t c s]
      by auto
  next
    case (returned result)
    show ?thesis
    proof (cases result)
      case None
      then show ?thesis
        using returned attempt_body_fields [of t m a c s] attempt_body_failures [of s t m a c]
        by auto
    next
      case (Some r)
      then show ?thesis
        using returned attempt_body_fields [of t m a c s] attempt_body_returns [of t m a c s r s']
        by auto
    qed
  next
    case (continued c' s1)
    have n: "n = nat (m - int (Suc a))" using Suc.hyps(2) by simp
    have ih: "config s' = config s1 \<and> request_delay s' = request_delay s1
         \<and> session_warmed s' = session_warmed s1
         \<and> (case res of
               Inr (Some r) \<Rightarrow>
                 status_code r = 200 \<and> \<not> is_captcha_page r \<and> consecutive_failures s' = 0
             | _ \<Rightarrow> consecutive_failures s1 \<le> consecutive_failures s')
         \<and> (m \<le> 1025 \<longrightarrow> (\<exists>x. res = Inr x))"
      by (rule Suc.hyps(1) [OF n continued(3)])
    have step: "consecutive_failures s \<le> consecutive_failures s1"
      using attempt_body_failures [of s t m a c] continued(2) by auto
    show ?thesis
      using ih step attempt_body_fields [of t m a c s] continued(2)
      by (auto split: sum.splits option.splits)
  qed
qed

text \<open>A transport that fails every request.\<close>

lemma attempt_body_deaf:
  assumes "\<forall>n. replies s n = Failure" "a < 1024" "int a < m - 1"
  shows "\<exists>s1. attempt_body t m a c s = (Inr (Continue c), s1) \<and> (\<forall>n. replies s1 n = Failure)"
proof -
  obtain x s1 where sr: "send_request t a s = (x, s1)" by fastforce
  have "x \<noteq> Inr r" for r
    using send_request_answer [of t a s r s1] sr assms(1) by (auto simp: next_item_def)
  then obtain e where x: "x = Inl e" by (cases x) auto
  have r1: "\<forall>n. replies s1 n = Failure"
    using send_request_replies [of t a s] sr assms(1) by (auto simp: later_def)
  obtain y s2 where oe: "on_exception m a c s1 = (y, s2)" by fastforce
  have "y = Inr (Continue c)"
    using on_exception_result [of m a c s1] oe assms(2,3) by (simp add: adaptive_delay_None_fits)
  moreover have "replies s2 = replies s1" using on_exception_fields [of m a c s1] oe by simp
  ultimately show ?thesis using sr x oe r1 by (simp add: attempt_body_def)
qed

lemma attempt_body_overflow:
  assumes "1024 \<le> a" "int a < m - 1"
  shows "fst (attempt_body t m a c s) = Inl OverflowError"
proof -
  obtain x s1 where sr: "send_request t a s = (x, s1)" by fastforce
  have x: "x = Inl OverflowError" using send_request_overflow [OF assms(1), of t s] sr by simp
  show ?thesis
    using sr x on_exception_result [of m a c s1] assms
    by (simp add: attempt_body_def adaptive_delay_overflows)
qed

lemma make_request_loop_deaf:
  assumes "\<forall>n. replies s n = Failure" "a \<le> 1024" "1026 \<le> m"
  shows "fst (make_request_loop t m a c s) = Inl OverflowError"
  using assms
proof (induction "1024 - a" arbitrary: a c s)
  case 0
  then have a: "1024 \<le> a" "int a < m - 1" "int a < m" by simp_all
  obtain s1 where "attempt_body t m a c s = (Inl OverflowError, s1)"
    using attempt_body_overflow [OF a(1,2), of t c s] by (cases "attempt_body t m a c s") auto
  then show ?case using a(3) by (simp add: make_request_loop_unfold)
next
  case (Suc n)
  then have a: "a < 1024" "int a < m - 1" "int a < m" by simp_all
  obtain s1 where s1: "attempt_body t m a c s = (Inr (Continue c), s1)" "\<forall>n. replies s1 n = Failure"
    using attempt_body_deaf [OF Suc.prems(1) a(1,2), of t c] by blast
  have "fst (make_request_loop t m (Suc a) c s1) = Inl OverflowError"
    using Suc.hyps(1) [of "Suc a" s1 c] Suc.hyps(2) s1(2) Suc.prems(3) a(1) by simp
  then show ?case using s1(1) a(3) by (simp add: make_request_loop_unfold)
qed

lemma adaptive_delays_append [simp]:
  "adaptive_delays (xs @ ys) = adaptive_delays xs @ adaptive_delays ys"
  by (induction xs rule: adaptive_delays.induct) simp_all

lemma send_request_succeeds:
  assumes "client s = OPENED" "next_item (replies s) = Answer r"
    and "py_mul_float (dict_get (config s) ''requestDelay'' (PInt 2)) (4 / 5) = Inr lo"
    and "py_mul_float (dict_get (config s) ''requestDelay'' (PInt 2)) 2 = Inr hi"
    and "a < 512"
  shows "\<exists>s1. send_request t a s = (Inr r, s1) \<and> same_session s s1
           \<and> replies s1 = later (replies s)
           \<and> (\<exists>hdrs. last (trace s1) = Get t hdrs) \<and> trace s1 \<noteq> []
           \<and> adaptive_delays (trace s1) =
               adaptive_delays (trace s) @ (if 0 < a then [(a, last_error_code s)] else [])"
proof -
  obtain hdrs s1 where g: "get_realistic_headers t s = (hdrs, s1)" and q: "quiet s s1"
    by (rule get_realistic_headers_cases)
  obtain d where d: "adaptive_delay a (last_error_code s) (next_item (rng s1)) = Inr d"
    using delay_before_cap_formula [OF assms(5), of "last_error_code s" "next_item (rng s1)"]
    by (simp add: adaptive_delay_def)
  show ?thesis
    using q assms(1-4) d unfolding send_request_def g
    by (auto simp: quiet_def same_session_def fetch_steps)
qed

lemma send_request_answer_trace:
  assumes "send_request t a s = (Inr r, s')"
  shows "\<exists>hdrs. trace s' \<noteq> [] \<and> last (trace s') = Get t hdrs"
proof -
  obtain hdrs s1 where g: "get_realistic_headers t s = (hdrs, s1)" and q: "quiet s s1"
    by (rule get_realistic_headers_cases)
  show ?thesis
    using q assms unfolding send_request_def g
    by (auto simp: quiet_def same_session_def fetch_steps
        split: sum.splits reply.splits if_splits)
qed

lemma default_delay_fits:
  "py_mul_float (dict_get [] ''requestDelay'' (PInt 2)) x = Inr (2 * x)"
  by (simp add: dict_get_def float_of_int_def)

lemma plain_response_not_captcha: "\<not> is_captcha_page (plain_response code hdrs) \<longleftrightarrow> \<not> list_ex (\<lambda>(k, v). str_in ''captcha'' (lower k) \<or> str_in ''captcha'' (lower v)) hdrs"
  by (simp add: is_captcha_page_def plain_response_def lower_def lower_char_def Let_def)

text \<open>A pass that gets an answer.\<close>

lemma attempt_body_answered:
  assumes "send_request t a s = (Inr r, s1)" "handle_response m a c r s1 = (Inr f, s2)"
  shows "attempt_body t m a c s = (Inr f, s2)"
  using assms by (simp add: attempt_body_def)

lemma attempt_body_503:
  assumes "client s = OPENED" "next_item (replies s) = Answer r"
    and "py_mul_float (dict_get (config s) ''requestDelay'' (PInt 2)) (4 / 5) = Inr lo"
    and "py_mul_float (dict_get (config s) ''requestDelay'' (PInt 2)) 2 = Inr hi"
    and "a < 512" "int a < m - 1"
    and "\<not> is_captcha_page r" "status_code r = 503" "consecutive_failures s + 1 < 3"
  shows "\<exists>s'. attempt_body t m a c s = (Inr (Continue c), s')
           \<and> client s' = OPENED \<and> config s' = config s
           \<and> last_error_code s' = Some 503
           \<and> consecutive_failures s' = consecutive_failures s + 1
           \<and> replies s' = later (replies s)
           \<and> adaptive_delays (trace s') =
               adaptive_delays (trace s) @ (if 0 < a then [(a, last_error_code s)] else [])
                 @ [(a, Some 503)]"
proof -
  obtain s1 where s1: "send_request t a s = (Inr r, s1)" "same_session s s1"
      "replies s1 = later (replies s)"
      "adaptive_delays (trace s1) =
         adaptive_delays (trace s) @ (if 0 < a then [(a, last_error_code s)] else [])"
    using send_request_succeeds [OF assms(1-5), of t] by blast
  obtain d where d: "adaptive_delay a (Some 503) (next_item (rng s1)) = Inr d"
    using delay_before_cap_formula [OF assms(5), of "Some 503" "next_item (rng s1)"]
    by (simp add: adaptive_delay_def)
  let ?s2 = "s1\<lparr>last_error_code := Some 503,
                 consecutive_failures := consecutive_failures s1 + 1,
                 rng := later (rng s1),
                 trace := trace s1 @ [Sleep (Adaptive a (Some 503)) d]\<rparr>"
  have "handle_response m a c r s1 = (Inr (Continue c), ?s2)"
    using assms(6-9) s1(2) d by (simp add: handle_response_503 same_session_def)
  then have "attempt_body t m a c s = (Inr (Continue c), ?s2)"
    using s1(1) by (rule attempt_body_answered [rotated])
  then show ?thesis using s1 assms(1) by (simp add: same_session_def)
qed

lemma attempt_body_200:
  assumes "client s = OPENED" "next_item (replies s) = Answer r"
    and "py_mul_float (dict_get (config s) ''requestDelay'' (PInt 2)) (4 / 5) = Inr lo"
    and "py_mul_float (dict_get (config s) ''requestDelay'' (PInt 2)) 2 = Inr hi"
    and "a < 512"
    and "\<not> is_captcha_page r" "status_code r = 200"
  shows "\<exists>s'. attempt_body t m a c s = (Inr (Return (Some r)), s')
           \<and> consecutive_failures s' = 0 \<and> last_error_code s' = None
           \<and> adaptive_delays (trace s') =
               adaptive_delays (trace s) @ (if 0 < a then [(a, last_error_code s)] else [])"
proof -
  obtain s1 where s1: "send_request t a s = (Inr r, s1)" "same_session s s1"
      "adaptive_delays (trace s1) =
         adaptive_delays (trace s) @ (if 0 < a then [(a, last_error_code s)] else [])"
    using send_request_succeeds [OF assms(1-5), of t] by blast
  obtain s2 where s2: "handle_response m a c r s1 = (Inr (Return (Some r)), s2)"
      "consecutive_failures s2 = 0" "last_error_code s2 = None" "trace s2 = trace s1"
    using assms(6,7) by (simp add: handle_response_200)
  have "attempt_body t m a c s = (Inr (Return (Some r)), s2)"
    using s1(1) s2(1) by (rule attempt_body_answered)
  then show ?thesis using s1 s2 by simp
qed

text \<open>The scenario 503, 503, 200 with three attempts.\<close>

lemma fetch_503_503_200:
  assumes "client s = OPENED" "consecutive_failures s = 0"
    and "py_mul_float (dict_get (config s) ''requestDelay'' (PInt 2)) (4 / 5) = Inr lo"
    and "py_mul_float (dict_get (config s) ''requestDelay'' (PInt 2)) 2 = Inr hi"
    and "replies s 0 = Answer r1" "replies s 1 = Answer r2" "replies s 2 = Answer r3"
    and "status_code r1 = 503" "status_code r2 = 503" "status_code r3 = 200"
    and "\<not> is_captcha_page r1" "\<not> is_captcha_page r2" "\<not> is_captcha_page r3"
  shows "\<exists>s'. make_request t 3 w s = (Inr (Some r3), s')
           \<and> consecutive_failures s' = 0
           \<and> adaptive_delays (trace s') =
                adaptive_delays (trace s)
                  @ [(0, Some 503), (1, Some 503), (1, Some 503), (2, Some 503)]"
proof -
  have n0: "next_item (replies s) = Answer r1"
    and n1: "next_item (later (replies s)) = Answer r2"
    and n2: "next_item (later (later (replies s))) = Answer r3"
    using assms(5-7) by (simp_all add: next_item_def later_def numeral_2_eq_2)
  obtain sa where sa: "attempt_body t 3 0 0 s = (Inr (Continue 0), sa)"
      "client sa = OPENED" "config sa = config s" "last_error_code sa = Some 503"
      "consecutive_failures sa = 1" "replies sa = later (replies s)"
      "adaptive_delays (trace sa) = adaptive_delays (trace s) @ [(0, Some 503)]"
    using attempt_body_503 [of s r1 lo hi 0 3 t 0] assms(1-4,8-13) n0 by auto
  obtain sb where sb: "attempt_body t 3 1 0 sa = (Inr (Continue 0), sb)"
      "client sb = OPENED" "config sb = config s" "last_error_code sb = Some 503"
      "consecutive_failures sb = 2" "replies sb = later (later (replies s))"
      "adaptive_delays (trace sb) =
         adaptive_delays (trace s) @ [(0, Some 503), (1, Some 503), (1, Some 503)]"
    using attempt_body_503 [of sa r2 lo hi 1 3 t 0] assms(1-4,8-13) n1 sa by auto
  obtain sc where sc: "attempt_body t 3 (Suc (Suc 0)) 0 sb = (Inr (Return (Some r3)), sc)"
      "consecutive_failures sc = 0"
      "adaptive_delays (trace sc) =
         adaptive_delays (trace s) @ [(0, Some 503), (1, Some 503), (1, Some 503), (2, Some 503)]"
    using attempt_body_200 [of sb r3 lo hi "Suc (Suc 0)" t 3 0] assms(1-4,8-13) n2 sb
    by (auto simp: numeral_2_eq_2)
  have "make_request_loop t 3 (Suc (Suc 0)) 0 sb = (Inr (Some r3), sc)"
    using sc(1) by (simp add: make_request_loop_unfold [of t 3 "Suc (Suc 0)"])
  then have "make_request_loop t 3 (Suc 0) 0 sa = (Inr (Some r3), sc)"
    using sb(1) by (simp add: make_request_loop_unfold [of t 3 "Suc 0"])
  then have "make_request_loop t 3 0 0 s = (Inr (Some r3), sc)"
    using sa(1) by (simp add: make_request_loop_unfold [of t 3 0])
  then show ?thesis using sc by (simp add: make_request_def)
qed

lemma make_request_spec:
  assumes "make_request t m w s = (res, s')"
  shows "config s' = config s \<and> request_delay s' = request_delay s
         \<and> session_warmed s' = session_warmed s
         \<and> (case res of
               Inr (Some r) \<Rightarrow>
                 status_code r = 200 \<and> \<not> is_captcha_page r \<and> consecutive_failures s' = 0
             | _ \<Rightarrow> consecutive_failures s \<le> consecutive_failures s')
         \<and> (m \<le> 1025 \<longrightarrow> (\<exists>x. res = Inr x))"
  using assms make_request_loop_spec [of t m 0 0 s res s'] by (simp add: make_request_def)

lemma new_scraper_fields [simp]:
  "client (new_scraper xs) = OPENED" "config (new_scraper xs) = []"
  "consecutive_failures (new_scraper xs) = 0" "replies (new_scraper xs) = feed xs Failure"
  "trace (new_scraper xs) = []" "last_error_code (new_scraper xs) = None"
  "rng (new_scraper xs) = feed [] (1 / 2)"
  by (simp_all add: new_scraper_def scraper_init_def)

lemma plain_response_fields [simp]:
  "status_code (plain_response code hdrs) = code" "headers (plain_response code hdrs) = hdrs"
  "\<not> is_captcha_page (plain_response code [])"
  by (simp_all add: plain_response_def plain_response_not_captcha [unfolded plain_response_def])










subsection \<open>The claims about one logical fetch\<close>

text \<open>
  C1 fails on the code at one point. With 1026 attempts allowed and a transport that fails
  every request, attempt 1024 raises \<^verbatim>\<open>OverflowError\<close> inside the \<^verbatim>\<open>try\<close> block (the power
  of two no longer converts to a float), the handler of line 306 calls
  \<^verbatim>\<open>_adaptive_delay_strategy(attempt)\<close> again at line 311, outside any \<^verbatim>\<open>try\<close>, and that
  second \<^verbatim>\<open>OverflowError\<close> leaves \<^verbatim>\<open>_make_request\<close>.
\<close>

theorem make_request_overflow_escapes:
  "fst (make_request ''https://www.amazon.com/dp/B000000000'' 1026 False (new_scraper []))
     = Inl OverflowError"
  using make_request_loop_deaf [of "new_scraper []" 0 1026 "''https://www.amazon.com/dp/B000000000''" 0]
  by (simp add: make_request_def feed_def)

text \<open>Up to 1025 attempts nothing is raised: the fetch returns a 200 response or \<^verbatim>\<open>None\<close>.\<close>

lemma make_request_absorbs:
  assumes "m \<le> 1025"
  shows "fst (make_request t m w s) = Inr None
         \<or> (\<exists>r. fst (make_request t m w s) = Inr (Some r) \<and> status_code r = 200)"
proof -
  obtain res s' where mr: "make_request t m w s = (res, s')" by fastforce
  from make_request_spec [OF mr] assms show ?thesis
    unfolding mr by (auto split: sum.splits option.splits)
qed



text \<open>
  C5. When the request of an attempt is answered by a 404 that is no CAPTCHA page, the
  fetch returns \<^verbatim>\<open>None\<close> at once: the final state is the state right after the request
  with only \<^verbatim>\<open>_last_error_code\<close> set, so the request is the last effect (no delay, no
  further attempt) and the count of consecutive failures is what it was before the
  attempt. This holds for every attempt of the loop, the first one of \<^verbatim>\<open>_make_request\<close>
  included, whatever \<^verbatim>\<open>max_retries\<close> allows.
\<close>

theorem not_found_ends_fetch:
  assumes "int attempt < max_retries"
    and "send_request target attempt s = (Inr r, s1)"
    and "status_code r = 404" and "\<not> is_captcha_page r"
  shows "make_request_loop target max_retries attempt captcha_attempts s =
           (Inr None, s1\<lparr>last_error_code := Some 404\<rparr>)
         \<and> consecutive_failures s1 = consecutive_failures s
         \<and> (\<exists>hdrs. last (trace s1) = Get target hdrs)
         \<and> (attempt = 0 \<and> captcha_attempts = 0 \<longrightarrow>
              make_request target max_retries skip_warmup s =
                (Inr None, s1\<lparr>last_error_code := Some 404\<rparr>))"
proof -
  have hr: "handle_response max_retries attempt captcha_attempts r s1 =
              (Inr (Return None), s1\<lparr>last_error_code := Some 404\<rparr>)"
    using assms(3,4) by (rule handle_response_404 [rotated])
  have "attempt_body target max_retries attempt captcha_attempts s =
          (Inr (Return None), s1\<lparr>last_error_code := Some 404\<rparr>)"
    using assms(2) hr by (rule attempt_body_answered)
  then have loop: "make_request_loop target max_retries attempt captcha_attempts s =
           (Inr None, s1\<lparr>last_error_code := Some 404\<rparr>)"
    using assms(1) by (simp add: make_request_loop_unfold)
  moreover have "consecutive_failures s1 = consecutive_failures s"
    using send_request_same_session [of s target attempt] assms(2) by (simp add: same_session_def)
  moreover have "\<exists>hdrs. last (trace s1) = Get target hdrs"
    using send_request_answer_trace [OF assms(2)] by blast
  ultimately show ?thesis by (auto simp: make_request_def)
qed

text \<open>C5 at a first attempt answered by a plain 404.\<close>

theorem not_found_ends_fetch_witness:
  "int 0 < 3
   \<and> fst (send_request ''https://www.amazon.com/dp/B000000000'' 0
            (new_scraper [Answer (plain_response 404 [])])) = Inr (plain_response 404 [])
   \<and> status_code (plain_response 404 []) = 404
   \<and> \<not> is_captcha_page (plain_response 404 [])
   \<and> fst (make_request ''https://www.amazon.com/dp/B000000000'' 3 False
            (new_scraper [Answer (plain_response 404 [])])) = Inr None
   \<and> consecutive_failures (snd (make_request ''https://www.amazon.com/dp/B000000000'' 3 False
            (new_scraper [Answer (plain_response 404 [])]))) = 0"
proof -
  let ?t = "''https://www.amazon.com/dp/B000000000''"
  let ?s = "new_scraper [Answer (plain_response 404 [])]"
  obtain s1 where s1: "send_request ?t 0 ?s = (Inr (plain_response 404 []), s1)"
    using send_request_succeeds [of ?s "plain_response 404 []" "8 / 5" 4 0 ?t]
    by (auto simp: default_delay_fits)
  show ?thesis
    using not_found_ends_fetch [of 0 3 ?t ?s "plain_response 404 []" s1 0 False] s1
    by simp
qed

lemma int_of_str_foldl_nonneg:
  "0 \<le> acc \<Longrightarrow> list_all is_decimal_char v \<Longrightarrow>
     0 \<le> foldl (\<lambda>a c. 10 * a + (of_char c - 48)) (acc :: int) v"
proof (induction v arbitrary: acc)
  case Nil
  then show ?case by simp
next
  case (Cons x xs)
  have "48 \<le> (of_char x :: nat)" using Cons.prems(2) by (simp add: is_decimal_char_def Let_def)
  then have "(48 :: int) \<le> of_char x" by (metis of_char_of of_nat_le_iff of_nat_numeral of_nat_of_char)
  then have "0 \<le> 10 * acc + (of_char x - 48)" using Cons.prems(1) by simp
  then show ?case using Cons.IH Cons.prems(2) by simp
qed

lemma int_of_str_nonneg: "list_all is_decimal_char v \<Longrightarrow> 0 \<le> int_of_str v"
  by (simp add: int_of_str_def int_of_str_foldl_nonneg)

lemma decimal_isdigit: "v \<noteq> [] \<Longrightarrow> list_all is_decimal_char v \<Longrightarrow> isdigit v"
  by (simp add: isdigit_def is_digit_char_def list_all_iff)

lemma uniform_5_15:
  "0 \<le> next_item (rng s) \<Longrightarrow> next_item (rng s) \<le> 1 \<Longrightarrow>
     5 \<le> fst (random_uniform 5 15 s) \<and> fst (random_uniform 5 15 s) \<le> 15"
  by (simp add: random_uniform_def)

lemma handle_response_429_code:
  assumes "\<not> is_captcha_page r" "status_code r = 429"
  shows "last_error_code (snd (handle_response m a c r s)) = Some 429"
  using assms by (simp add: handle_response_429 Let_def split: sum.splits option.splits)

lemma send_request_retry_delay:
  assumes "0 < a" "a < 512"
  shows "\<exists>d u es. adaptive_delay a (last_error_code s) u = Inr d
           \<and> trace (snd (send_request t a s)) = trace s @ Sleep (Adaptive a (last_error_code s)) d # es"
proof -
  obtain hdrs s1 where g: "get_realistic_headers t s = (hdrs, s1)" and q: "quiet s s1"
    by (rule get_realistic_headers_cases)
  obtain d where d: "adaptive_delay a (last_error_code s) (next_item (rng s1)) = Inr d"
    using delay_before_cap_formula [OF assms(2), of "last_error_code s" "next_item (rng s1)"]
    by (simp add: adaptive_delay_def)
  have "\<exists>es. trace (snd (send_request t a s)) = trace s @ Sleep (Adaptive a (last_error_code s)) d # es"
    using q assms(1) d unfolding send_request_def g
    by (auto simp: quiet_def same_session_def fetch_steps
        split: sum.splits reply.splits if_splits)
  then show ?thesis using d by blast
qed

lemma make_request_loop_continues:
  assumes "int a < m" "fst (send_request t a s) = Inr r"
    and "fst (handle_response m a c r (snd (send_request t a s))) = Inr (Continue c')"
  shows "make_request_loop t m a c s =
           make_request_loop t m (Suc a) c' (snd (handle_response m a c r (snd (send_request t a s))))"
proof -
  obtain s1 where sr: "send_request t a s = (Inr r, s1)"
    using assms(2) by (cases "send_request t a s") auto
  obtain s2 where hr: "handle_response m a c r s1 = (Inr (Continue c'), s2)"
    using assms(3) sr by (cases "handle_response m a c r s1") auto
  have "attempt_body t m a c s = (Inr (Continue c'), s2)"
    using sr hr by (rule attempt_body_answered)
  then show ?thesis using assms(1) sr hr by (simp add: make_request_loop_unfold [of t m a])
qed

lemma outline_append [simp]: "outline (xs @ ys) = outline xs @ outline ys"
  by (induction xs rule: outline.induct) simp_all

lemma steady_choice: "rng s' = feed [] u \<Longrightarrow> rng (snd (random_choice xs s')) = feed [] u"
  by (simp add: random_choice_def)

lemma steady_random: "rng s' = feed [] u \<Longrightarrow> rng (snd (random_random s')) = feed [] u"
  by (simp add: random_random_def)

lemma steady_bind:
  "rng (snd m) = feed [] u \<Longrightarrow> (\<And>x s1. rng s1 = feed [] u \<Longrightarrow> rng (snd (f x s1)) = feed [] u)
     \<Longrightarrow> rng (snd (let (x, s1) = m in f x s1)) = feed [] u"
  by (cases m) simp

lemma steady_let: "(\<And>x. rng (snd (f x)) = feed [] u) \<Longrightarrow> rng (snd (Let t f)) = feed [] u"
  by simp

lemma steady_snd_if:
  "(c \<Longrightarrow> rng (snd a) = feed [] u) \<Longrightarrow> (\<not> c \<Longrightarrow> rng (snd b) = feed [] u)
     \<Longrightarrow> rng (snd (if c then a else b)) = feed [] u"
  by simp

lemma steady_pair: "rng s' = feed [] u \<Longrightarrow> rng (snd (x, s')) = feed [] u"
  by simp

lemma get_realistic_headers_steady:
  "rng s = feed [] u \<Longrightarrow> rng (snd (get_realistic_headers t s)) = feed [] u"
  unfolding get_realistic_headers_def
  by (rule steady_bind steady_let steady_snd_if steady_pair steady_choice steady_random
      | assumption)+

lemma send_request_steady:
  assumes "client s = OPENED" "next_item (replies s) = Answer r" "config s = []"
    and "rng s = feed [] (1 / 2)" "a < 512"
  shows "\<exists>s1. send_request t a s = (Inr r, s1) \<and> same_session s s1
           \<and> replies s1 = later (replies s) \<and> rng s1 = feed [] (1 / 2)
           \<and> outline (trace s1) =
               outline (trace s)
                 @ (if 0 < a then [Sleep (Adaptive a (last_error_code s))
                                     (case adaptive_delay a (last_error_code s) (1 / 2) of
                                        Inr d \<Rightarrow> d | Inl e \<Rightarrow> 0)]
                    else [])
                 @ [Sleep Human (14 / 5), Get t []]"
proof -
  obtain hdrs s1 where g: "get_realistic_headers t s = (hdrs, s1)" and q: "quiet s s1"
    by (rule get_realistic_headers_cases)
  have r1: "rng s1 = feed [] (1 / 2)"
    using get_realistic_headers_steady [OF assms(4), of t] g by simp
  obtain d where d: "adaptive_delay a (last_error_code s) (1 / 2) = Inr d"
    using delay_before_cap_formula [OF assms(5), of "last_error_code s" "1 / 2"]
    by (simp add: adaptive_delay_def)
  show ?thesis
    using q assms(1-3) d r1 unfolding send_request_def g
    by (auto simp: quiet_def same_session_def fetch_steps default_delay_fits)
qed

text \<open>
  C6, as the code has it. Handling a 429 that is no CAPTCHA page: when \<^verbatim>\<open>Retry-After\<close> is
  a string of one to 4300 of the digits 0 to 9 with a value of at most \<open>2^53 - 15\<close>, the
  one effect is a sleep of that value plus \<^verbatim>\<open>random.uniform(5, 15)\<close>, a wait from the value
  plus 5 to the value plus 15 for a draw in the unit interval, and the adaptive delay is
  not called there; when the header is absent or \<^verbatim>\<open>str.isdigit\<close> is false of it, the outcome
  is that of \<^verbatim>\<open>_adaptive_delay_strategy(attempt, 429)\<close>. In every case the count of
  consecutive failures goes up by one and \<^verbatim>\<open>_last_error_code\<close> is left at 429. The adaptive
  formula is not bypassed for the retry: a request of attempt \<open>attempt + 1\<close> made from the
  state so left begins, below attempt 512, with the adaptive delay for that attempt and
  error code 429 (line 205); and when the header was honoured and a further attempt is
  allowed, the loop does go on with attempt \<open>attempt + 1\<close> from that state.
\<close>

theorem retry_after_honoured:
  assumes "status_code r = 429" and "\<not> is_captcha_page r"
  shows "(headers_get (headers r) ''Retry-After'' = Some v \<and> v \<noteq> []
            \<and> list_all is_decimal_char v \<and> length v \<le> 4300 \<and> int_of_str v \<le> 2 ^ 53 - 15 \<longrightarrow>
          handle_response m a c r s =
            (Inr (Continue c),
             s\<lparr>last_error_code := Some 429,
               consecutive_failures := consecutive_failures s + 1,
               rng := later (rng s),
               trace := trace s @
                 [Sleep RetryAfter (real_of_int (int_of_str v) + fst (random_uniform 5 15 s))]\<rparr>)
          \<and> (0 \<le> next_item (rng s) \<and> next_item (rng s) \<le> 1 \<longrightarrow>
               real_of_int (int_of_str v) + 5
                 \<le> real_of_int (int_of_str v) + fst (random_uniform 5 15 s)
               \<and> real_of_int (int_of_str v) + fst (random_uniform 5 15 s)
                 \<le> real_of_int (int_of_str v) + 15))
       \<and> (headers_get (headers r) ''Retry-After'' = None
            \<or> (headers_get (headers r) ''Retry-After'' = Some v \<and> \<not> isdigit v) \<longrightarrow>
          handle_response m a c r s =
            (case adaptive_delay_strategy a (Some 429)
                    (s\<lparr>last_error_code := Some 429,
                       consecutive_failures := consecutive_failures s + 1\<rparr>) of
               (Inl e, s3) \<Rightarrow> (Inl e, s3)
             | (Inr u, s3) \<Rightarrow> (Inr (Continue c), s3)))
       \<and> consecutive_failures (snd (handle_response m a c r s)) = consecutive_failures s + 1
       \<and> last_error_code (snd (handle_response m a c r s)) = Some 429
       \<and> (Suc a < 512 \<longrightarrow>
            (\<exists>d u es. adaptive_delay (Suc a) (Some 429) u = Inr d
               \<and> trace (snd (send_request t (Suc a) (snd (handle_response m a c r s)))) =
                    trace (snd (handle_response m a c r s))
                      @ Sleep (Adaptive (Suc a) (Some 429)) d # es))
       \<and> (int (Suc a) < m \<and> fst (send_request t a s0) = Inr r
            \<and> fst (handle_response m a c r (snd (send_request t a s0))) = Inr (Continue c) \<longrightarrow>
          make_request_loop t m a c s0 =
            make_request_loop t m (Suc a) c
              (snd (handle_response m a c r (snd (send_request t a s0)))))"
proof -
  have honoured: "handle_response m a c r s =
            (Inr (Continue c),
             s\<lparr>last_error_code := Some 429,
               consecutive_failures := consecutive_failures s + 1,
               rng := later (rng s),
               trace := trace s @
                 [Sleep RetryAfter (real_of_int (int_of_str v) + fst (random_uniform 5 15 s))]\<rparr>)"
    if "headers_get (headers r) ''Retry-After'' = Some v" "v \<noteq> []" "list_all is_decimal_char v"
      "length v \<le> 4300" "int_of_str v \<le> 2 ^ 53 - 15"
  proof -
    have "isdigit v" using that(2,3) by (rule decimal_isdigit)
    moreover have "py_int v = Inr (int_of_str v)" using that(2-4) by (simp add: py_int_def)
    moreover have "\<bar>int_of_str v\<bar> < 2 ^ 1024 - 2 ^ 970"
    proof -
      have "(2 :: int) ^ 53 + 2 ^ 970 \<le> 2 ^ 970 + 2 ^ 970" by (intro add_right_mono power_increasing) simp_all
      also have "\<dots> = 2 ^ 971" by simp
      also have "\<dots> \<le> 2 ^ 1024" by (intro power_increasing) simp_all
      finally have "(2 :: int) ^ 53 \<le> 2 ^ 1024 - 2 ^ 970" by simp
      then show ?thesis using that(5) int_of_str_nonneg [OF that(3)] by simp
    qed
    ultimately show ?thesis
      using that(1) assms by (simp add: handle_response_429 float_of_int_def random_uniform_def)
  qed
  have bounds: "real_of_int (int_of_str v) + 5
                 \<le> real_of_int (int_of_str v) + fst (random_uniform 5 15 s)
               \<and> real_of_int (int_of_str v) + fst (random_uniform 5 15 s)
                 \<le> real_of_int (int_of_str v) + 15"
    if "0 \<le> next_item (rng s)" "next_item (rng s) \<le> 1"
    using uniform_5_15 [OF that] by simp
  have fallback: "handle_response m a c r s =
            (case adaptive_delay_strategy a (Some 429)
                    (s\<lparr>last_error_code := Some 429,
                       consecutive_failures := consecutive_failures s + 1\<rparr>) of
               (Inl e, s3) \<Rightarrow> (Inl e, s3)
             | (Inr u, s3) \<Rightarrow> (Inr (Continue c), s3))"
    if "headers_get (headers r) ''Retry-After'' = None
            \<or> (headers_get (headers r) ''Retry-After'' = Some v \<and> \<not> isdigit v)"
    using that assms
    by (auto simp add: handle_response_429 adaptive_delay_strategy_def sleep_def split: sum.splits)
  have count: "consecutive_failures (snd (handle_response m a c r s)) = consecutive_failures s + 1"
    using assms by (simp add: handle_response_failures)
  have code: "last_error_code (snd (handle_response m a c r s)) = Some 429"
    using assms by (simp add: handle_response_429_code)
  have retry: "\<exists>d u es. adaptive_delay (Suc a) (Some 429) u = Inr d
               \<and> trace (snd (send_request t (Suc a) (snd (handle_response m a c r s)))) =
                    trace (snd (handle_response m a c r s))
                      @ Sleep (Adaptive (Suc a) (Some 429)) d # es"
    if "Suc a < 512"
    using send_request_retry_delay [of "Suc a" "snd (handle_response m a c r s)" t] that code
    by simp
  have continues: "make_request_loop t m a c s0 =
            make_request_loop t m (Suc a) c
              (snd (handle_response m a c r (snd (send_request t a s0))))"
    if "int (Suc a) < m" "fst (send_request t a s0) = Inr r"
       "fst (handle_response m a c r (snd (send_request t a s0))) = Inr (Continue c)"
    using make_request_loop_continues [of a m t s0 r c c] that by simp
  show ?thesis
    using honoured bounds fallback count code retry continues by blast
qed

text \<open>
  C6 for the headers \<^verbatim>\<open>Retry-After: 12\<close>, \<^verbatim>\<open>Retry-After: soon\<close> and none, with the draw one
  half, and for a first attempt of three answered by \<^verbatim>\<open>Retry-After: 12\<close>.
\<close>

theorem retry_after_honoured_witness:
  "status_code (plain_response 429 [(''Retry-After'', ''12'')]) = 429
   \<and> \<not> is_captcha_page (plain_response 429 [(''Retry-After'', ''12'')])
   \<and> headers_get (headers (plain_response 429 [(''Retry-After'', ''12'')])) ''Retry-After'' = Some ''12''
   \<and> ''12'' \<noteq> [] \<and> list_all is_decimal_char ''12'' \<and> length ''12'' \<le> 4300
   \<and> int_of_str ''12'' \<le> 2 ^ 53 - 15
   \<and> 0 \<le> next_item (rng (new_scraper [])) \<and> next_item (rng (new_scraper [])) \<le> 1
   \<and> handle_response 3 0 0 (plain_response 429 [(''Retry-After'', ''12'')]) (new_scraper []) =
        (Inr (Continue 0),
         (new_scraper [])\<lparr>last_error_code := Some 429, consecutive_failures := 1,
            rng := later (rng (new_scraper [])), trace := [Sleep RetryAfter 22]\<rparr>)
   \<and> headers_get (headers (plain_response 429 [(''Retry-After'', ''soon'')])) ''Retry-After'' = Some ''soon''
   \<and> \<not> isdigit ''soon''
   \<and> trace (snd (handle_response 3 0 0 (plain_response 429 [(''Retry-After'', ''soon'')])
                 (new_scraper []))) = [Sleep (Adaptive 0 (Some 429)) 32]
   \<and> headers_get (headers (plain_response 429 [])) ''Retry-After'' = None
   \<and> trace (snd (handle_response 3 0 0 (plain_response 429 []) (new_scraper [])))
       = [Sleep (Adaptive 0 (Some 429)) 32]
   \<and> Suc 0 < 512 \<and> int (Suc 0) < 3
   \<and> fst (send_request ''https://www.amazon.com/dp/B000000000'' 0
            (new_scraper [Answer (plain_response 429 [(''Retry-After'', ''12'')])]))
        = Inr (plain_response 429 [(''Retry-After'', ''12'')])
   \<and> fst (handle_response 3 0 0 (plain_response 429 [(''Retry-After'', ''12'')])
        (snd (send_request ''https://www.amazon.com/dp/B000000000'' 0
            (new_scraper [Answer (plain_response 429 [(''Retry-After'', ''12'')])]))))
        = Inr (Continue 0)
   \<and> make_request_loop ''https://www.amazon.com/dp/B000000000'' 3 0 0
        (new_scraper [Answer (plain_response 429 [(''Retry-After'', ''12'')])]) =
      make_request_loop ''https://www.amazon.com/dp/B000000000'' 3 (Suc 0) 0
        (snd (handle_response 3 0 0 (plain_response 429 [(''Retry-After'', ''12'')])
           (snd (send_request ''https://www.amazon.com/dp/B000000000'' 0
              (new_scraper [Answer (plain_response 429 [(''Retry-After'', ''12'')])])))))"
proof -
  let ?t = "''https://www.amazon.com/dp/B000000000''"
  let ?r = "plain_response 429 [(''Retry-After'', ''12'')]"
  let ?s0 = "new_scraper [Answer ?r]"
  have cap: "\<not> is_captcha_page (plain_response 429 [(k, v)])"
    if "\<not> str_in ''captcha'' (lower k)" "\<not> str_in ''captcha'' (lower v)" for k v
    using that by (simp add: plain_response_not_captcha)
  have c1: "\<not> is_captcha_page ?r"
    by (rule cap) (simp_all add: lower_def lower_char_def)
  have c2: "\<not> is_captcha_page (plain_response 429 [(''Retry-After'', ''soon'')])"
    by (rule cap) (simp_all add: lower_def lower_char_def)
  have h1: "headers_get [(''Retry-After'', v)] ''Retry-After'' = Some v" for v
    by (simp add: headers_get_def)
  have d: "list_all is_decimal_char ''12''" "\<not> isdigit ''soon''" "int_of_str ''12'' = 12"
    by (simp_all add: isdigit_def is_digit_char_def is_decimal_char_def int_of_str_def)
  have sr: "fst (send_request ?t 0 ?s0) = Inr ?r"
    using send_request_succeeds [of ?s0 ?r "8 / 5" 4 0 ?t] by (auto simp: default_delay_fits)
  have hr: "fst (handle_response 3 0 0 ?r (snd (send_request ?t 0 ?s0))) = Inr (Continue 0)"
    using retry_after_honoured [of ?r "''12''" 3 0 0 "snd (send_request ?t 0 ?s0)"] c1 h1 d
    by simp
  have loop: "make_request_loop ?t 3 0 0 ?s0 =
      make_request_loop ?t 3 (Suc 0) 0 (snd (handle_response 3 0 0 ?r (snd (send_request ?t 0 ?s0))))"
    using retry_after_honoured [of ?r _ 3 0 0 _ ?t ?s0] c1 sr hr by simp
  have one: "handle_response 3 0 0 ?r (new_scraper []) =
        (Inr (Continue 0),
         (new_scraper [])\<lparr>last_error_code := Some 429, consecutive_failures := 1,
            rng := later (rng (new_scraper [])), trace := [Sleep RetryAfter 22]\<rparr>)"
    using retry_after_honoured [of ?r "''12''" 3 0 0 "new_scraper []"] c1 h1 d
    by (simp add: random_uniform_def)
  have two: "trace (snd (handle_response 3 0 0 (plain_response 429 [(''Retry-After'', ''soon'')])
                 (new_scraper []))) = [Sleep (Adaptive 0 (Some 429)) 32]"
    using retry_after_honoured [of "plain_response 429 [(''Retry-After'', ''soon'')]" "''soon''" 3 0 0 "new_scraper []"]
      c2 h1 d
    by (simp add: adaptive_delay_strategy_def sleep_def adaptive_delay_def delay_before_cap_def
        float_of_int_def)
  have three: "trace (snd (handle_response 3 0 0 (plain_response 429 []) (new_scraper [])))
       = [Sleep (Adaptive 0 (Some 429)) 32]"
    using retry_after_honoured [of "plain_response 429 []" "''''" 3 0 0 "new_scraper []"]
    by (simp add: headers_get_def adaptive_delay_strategy_def sleep_def adaptive_delay_def
        delay_before_cap_def float_of_int_def)
  show ?thesis
    using c1 h1 d sr hr loop one two three by (simp add: headers_get_def)
qed

text \<open>
  C6 as stated fails for \<^verbatim>\<open>Retry-After: 12\<close>. A fetch of three attempts is answered by that
  429 and then by a 200, every draw being one half. After the first request the code
  sleeps 22 seconds for the header (12 plus the buffer), and then, before the second
  request, the adaptive delay of attempt 1 for error code 429, 34 seconds, and the
  human-like delay: the wait before the next attempt is not the value plus a buffer
  from 5 to 15, and the exponential formula has not been bypassed.
\<close>

theorem retry_after_counterexample:
  "fst (make_request ''https://www.amazon.com/dp/B000000000'' 3 False
         (new_scraper [Answer (plain_response 429 [(''Retry-After'', ''12'')]),
                       Answer (plain_response 200 [])])) = Inr (Some (plain_response 200 []))
   \<and> outline (trace (snd (make_request ''https://www.amazon.com/dp/B000000000'' 3 False
         (new_scraper [Answer (plain_response 429 [(''Retry-After'', ''12'')]),
                       Answer (plain_response 200 [])])))) =
       [Sleep Human (14 / 5), Get ''https://www.amazon.com/dp/B000000000'' [],
        Sleep RetryAfter 22, Sleep (Adaptive 1 (Some 429)) 34, Sleep Human (14 / 5),
        Get ''https://www.amazon.com/dp/B000000000'' []]"
proof -
  let ?t = "''https://www.amazon.com/dp/B000000000''"
  let ?r = "plain_response 429 [(''Retry-After'', ''12'')]"
  let ?s = "new_scraper [Answer ?r, Answer (plain_response 200 [])]"
  have c: "\<not> is_captcha_page ?r"
    by (simp add: plain_response_not_captcha lower_def lower_char_def)
  have h: "headers_get (headers ?r) ''Retry-After'' = Some ''12''"
    by (simp add: headers_get_def)
  have v: "isdigit ''12''" "py_int ''12'' = Inr 12"
    by (simp_all add: isdigit_def is_digit_char_def is_decimal_char_def py_int_def int_of_str_def)
  obtain s1 where s1: "send_request ?t 0 ?s = (Inr ?r, s1)" "same_session ?s s1"
      "replies s1 = later (replies ?s)" "rng s1 = feed [] (1 / 2)"
      "outline (trace s1) = [Sleep Human (14 / 5), Get ?t []]"
    using send_request_steady [of ?s ?r 0 ?t] by auto
  let ?s2 = "s1\<lparr>last_error_code := Some 429, consecutive_failures := consecutive_failures s1 + 1,
                rng := later (rng s1), trace := trace s1 @ [Sleep RetryAfter 22]\<rparr>"
  have hr: "handle_response 3 0 0 ?r s1 = (Inr (Continue 0), ?s2)"
    using c h v s1(4) by (simp add: handle_response_429 float_of_int_def)
  have a0: "attempt_body ?t 3 0 0 ?s = (Inr (Continue 0), ?s2)"
    using s1(1) hr by (rule attempt_body_answered)
  have d: "adaptive_delay (Suc 0) (Some 429) (1 / 2) = Inr 34"
    by (simp add: adaptive_delay_def delay_before_cap_def float_of_int_def)
  obtain s3 where s3: "send_request ?t (Suc 0) ?s2 = (Inr (plain_response 200 []), s3)"
      "outline (trace s3) =
         [Sleep Human (14 / 5), Get ?t [], Sleep RetryAfter 22,
          Sleep (Adaptive 1 (Some 429)) 34, Sleep Human (14 / 5), Get ?t []]"
    using send_request_steady [of ?s2 "plain_response 200 []" "Suc 0" ?t] s1(2-5) d
    by (auto simp: same_session_def)
  obtain s4 where s4: "handle_response 3 (Suc 0) 0 (plain_response 200 []) s3
                         = (Inr (Return (Some (plain_response 200 []))), s4)"
      "trace s4 = trace s3"
    by (simp add: handle_response_200)
  have a1: "attempt_body ?t 3 (Suc 0) 0 ?s2 = (Inr (Return (Some (plain_response 200 []))), s4)"
    using s3(1) s4(1) by (rule attempt_body_answered)
  have "make_request_loop ?t 3 (Suc 0) 0 ?s2 = (Inr (Some (plain_response 200 [])), s4)"
    using a1 by (simp add: make_request_loop_unfold [of ?t 3 "Suc 0"])
  then have "make_request ?t 3 False ?s = (Inr (Some (plain_response 200 [])), s4)"
    using a0 by (simp add: make_request_def make_request_loop_unfold [of ?t 3 0])
  then show ?thesis using s3(2) s4(2) by simp
qed

text \<open>Digit strings that \<^verbatim>\<open>int\<close> or the float addition refuse.\<close>

lemma retry_after_refused:
  "isdigit [CHR 0xB2] \<and> py_int [CHR 0xB2] = Inl ValueError
   \<and> isdigit (replicate 4301 CHR ''0'') \<and> py_int (replicate 4301 CHR ''0'') = Inl ValueError
   \<and> isdigit long_wait \<and> (\<exists>n. py_int long_wait = Inr n \<and> float_of_int n = Inl OverflowError)"
proof -
  have "isdigit [CHR 0xB2]" "py_int [CHR 0xB2] = Inl ValueError"
    by (simp_all add: isdigit_def is_digit_char_def is_decimal_char_def py_int_def)
  moreover have "isdigit (replicate 4301 CHR ''0'')" "py_int (replicate 4301 CHR ''0'') = Inl ValueError"
    by (simp_all add: isdigit_def is_digit_char_def is_decimal_char_def py_int_def list_all_iff)
  moreover have "isdigit long_wait"
    by (simp add: long_wait_def isdigit_def is_digit_char_def is_decimal_char_def)
  moreover have "py_int long_wait = Inr (int_of_str long_wait)"
    by (simp add: long_wait_def py_int_def is_decimal_char_def)
  moreover have "float_of_int (int_of_str long_wait) = Inl OverflowError"
    by (simp add: long_wait_def int_of_str_def float_of_int_def)
  ultimately show ?thesis by simp
qed

lemma handle_response_refused:
  assumes "\<not> is_captcha_page r" "status_code r = 429"
    and "headers_get (headers r) ''Retry-After'' = Some v" "isdigit v"
    and "py_int v = Inl e \<or> (\<exists>n. py_int v = Inr n \<and> float_of_int n = Inl e)"
  shows "fst (handle_response m a c r s) = Inl e
         \<and> trace (snd (handle_response m a c r s)) = trace s
         \<and> consecutive_failures (snd (on_exception m a c (snd (handle_response m a c r s))))
             = consecutive_failures s + 2"
  using assms on_exception_failures [of m a c "snd (handle_response m a c r s)"]
    handle_response_failures [of m a c r s]
  by (auto simp add: handle_response_429)

text \<open>
  C8, as the code has it. With three attempts allowed, no failure counted so far, an open
  client, a numeric \<^verbatim>\<open>requestDelay\<close>, and answers 503, 503, 200 that are no CAPTCHA pages,
  the fetch returns the 200 response, the count of consecutive failures ends at 0, and
  four delays of the 503 formula have been slept: after the first 503 (attempt 0), at
  the start of attempt 1, after the second 503 (attempt 1), and at the start of
  attempt 2.
\<close>

theorem fetch_503_503_200_delays:
  assumes "client s = OPENED" and "consecutive_failures s = 0"
    and "py_mul_float (dict_get (config s) ''requestDelay'' (PInt 2)) (4 / 5) = Inr lo"
    and "py_mul_float (dict_get (config s) ''requestDelay'' (PInt 2)) 2 = Inr hi"
    and "replies s 0 = Answer r1" and "replies s 1 = Answer r2" and "replies s 2 = Answer r3"
    and "status_code r1 = 503" and "status_code r2 = 503" and "status_code r3 = 200"
    and "\<not> is_captcha_page r1" and "\<not> is_captcha_page r2" and "\<not> is_captcha_page r3"
  shows "fst (make_request target 3 skip_warmup s) = Inr (Some r3)
         \<and> consecutive_failures (snd (make_request target 3 skip_warmup s)) = 0
         \<and> adaptive_delays (trace (snd (make_request target 3 skip_warmup s))) =
             adaptive_delays (trace s)
               @ [(0, Some 503), (1, Some 503), (1, Some 503), (2, Some 503)]"
  using fetch_503_503_200 [OF assms, of target skip_warmup] by auto

text \<open>C8 on a new scraper.\<close>

theorem fetch_503_503_200_delays_witness:
  "client (new_scraper [Answer (plain_response 503 []), Answer (plain_response 503 []),
                         Answer (plain_response 200 [])]) = OPENED
   \<and> consecutive_failures (new_scraper [Answer (plain_response 503 []),
         Answer (plain_response 503 []), Answer (plain_response 200 [])]) = 0
   \<and> fst (make_request ''https://www.amazon.com/dp/B000000000'' 3 False
        (new_scraper [Answer (plain_response 503 []), Answer (plain_response 503 []),
                      Answer (plain_response 200 [])])) = Inr (Some (plain_response 200 []))
   \<and> consecutive_failures (snd (make_request ''https://www.amazon.com/dp/B000000000'' 3 False
        (new_scraper [Answer (plain_response 503 []), Answer (plain_response 503 []),
                      Answer (plain_response 200 [])]))) = 0"
  using fetch_503_503_200_delays
    [of "new_scraper [Answer (plain_response 503 []), Answer (plain_response 503 []),
                      Answer (plain_response 200 [])]" "8 / 5" 4
        "plain_response 503 []" "plain_response 503 []" "plain_response 200 []"
        "''https://www.amazon.com/dp/B000000000''" False]
  by (simp add: default_delay_fits feed_def)

text \<open>C8 as stated fails: the delays of the 503 formula in that fetch are four, not two.\<close>

theorem two_delays_counterexample:
  "adaptive_delays (trace (snd (make_request ''https://www.amazon.com/dp/B000000000'' 3 False
        (new_scraper [Answer (plain_response 503 []), Answer (plain_response 503 []),
                      Answer (plain_response 200 [])])))) =
     [(0, Some 503), (1, Some 503), (1, Some 503), (2, Some 503)]
   \<and> length (adaptive_delays (trace (snd (make_request ''https://www.amazon.com/dp/B000000000'' 3 False
        (new_scraper [Answer (plain_response 503 []), Answer (plain_response 503 []),
                      Answer (plain_response 200 [])]))))) \<noteq> 2"
  using fetch_503_503_200
    [of "new_scraper [Answer (plain_response 503 []), Answer (plain_response 503 []),
                      Answer (plain_response 200 [])]" "8 / 5" 4
        "plain_response 503 []" "plain_response 503 []" "plain_response 200 []"
        "''https://www.amazon.com/dp/B000000000''" False]
  by (auto simp add: default_delay_fits feed_def)

subsection \<open>Scraped records\<close>

lemma bind_err_Inr: "bind_err x f = Inr y \<longleftrightarrow> (\<exists>v. x = Inr v \<and> f v = Inr y)"
  by (cases x) (simp_all add: bind_err_def)

lemma update_not_empty: "AList.update k v al \<noteq> []"
  by (cases al) auto

lemma nonempty_dict_at_update:
  "k' \<noteq> k \<Longrightarrow> nonempty_dict_at k (AList.update k' v d) = nonempty_dict_at k d"
  by (simp add: nonempty_dict_at_def update_conv')

lemma nonempty_dict_at_set_item2:
  assumes "set_item2 k1 k2 v d = Inr d'" "nonempty_dict_at k d"
  shows "nonempty_dict_at k d'"
  using assms
  by (auto simp: set_item2_def nonempty_dict_at_def update_conv' update_not_empty
      split: option.splits pyval.splits if_splits)

lemma nonempty_dict_at_append_item:
  assumes "append_item k1 v d = Inr d'" "nonempty_dict_at k d"
  shows "nonempty_dict_at k d'"
  using assms
  by (auto simp: append_item_def nonempty_dict_at_def update_conv'
      split: option.splits pyval.splits if_splits)

lemma append_item_not_empty: "append_item k v d = Inr d' \<Longrightarrow> d' \<noteq> []"
  by (auto simp: append_item_def update_not_empty split: option.splits pyval.splits)

lemma nonempty_dict_at_append_item2:
  assumes "append_item2 k1 k2 v d = Inr d'" "nonempty_dict_at k d"
  shows "nonempty_dict_at k d'"
  using assms
  by (auto simp: append_item2_def nonempty_dict_at_def update_conv' append_item_not_empty
      split: option.splits pyval.splits if_splits sum.splits)

lemma nonempty_dict_at_add_features:
  "add_features fs d = Inr d' \<Longrightarrow> nonempty_dict_at k d \<Longrightarrow> nonempty_dict_at k d'"
  by (induction fs arbitrary: d)
     (auto simp: bind_err_Inr split: if_splits dest: nonempty_dict_at_append_item)

lemma nonempty_dict_at_add_thumbnails:
  "add_thumbnails ts d = Inr d' \<Longrightarrow> nonempty_dict_at k d \<Longrightarrow> nonempty_dict_at k d'"
proof (induction ts d rule: add_thumbnails.induct)
  case (1 book_data)
  then show ?case by simp
next
  case (2 rest book_data)
  then show ?case by simp
next
  case (3 thumb_src rest book_data)
  then show ?case
    by (auto simp: bind_err_Inr split: if_splits dest: nonempty_dict_at_append_item2)
qed

lemma nonempty_dict_at_enhanced:
  assumes "extract_enhanced_details sp d = Inr d'" "nonempty_dict_at k d" "k \<noteq> ''breadcrumbs''"
  shows "nonempty_dict_at k d'"
proof -
  from assms(1) obtain b1 b2 b3 b4 b5 b6 where
    b1: "(case map_of d ''categories'' of
          None \<Rightarrow> Inl KeyError
        | Some cats \<Rightarrow>
            if truthy cats then
              (case cats of
                 PList xs \<Rightarrow>
                   bind_err (strings_of xs) (\<lambda>ts.
                     Inr (AList.update ''breadcrumbs''
                            (PStr (join ([CHR '' '', CHR 0xE2, CHR 0x80, CHR 0xBA, CHR '' '']) ts))
                            d))
               | _ \<Rightarrow> Inl TypeError)
            else Inr d) = Inr b1"
    and b2: "add_features (feature_items sp) b1 = Inr b2"
    and b3: "add_thumbnails (thumb_srcs sp) b2 = Inr b3"
    and b4: "(case availability_text sp of
             None \<Rightarrow> Inr b3
           | Some avail_text \<Rightarrow>
               bind_err (set_item2 ''availability'' ''stockText'' (PStr avail_text) b3)
                 (set_item2 ''availability'' ''inStock''
                    (PBool (str_in ''in stock'' (lower avail_text)
                            \<or> str_in ''available'' (lower avail_text))))) = Inr b4"
    and b5: "(case seller_link sp of
             None \<Rightarrow> Inr b4
           | Some (name, seller_id) \<Rightarrow>
               bind_err (set_item2 ''seller'' ''name'' (PStr name) b4) (\<lambda>b.
                 case seller_id of None \<Rightarrow> Inr b
                 | Some i \<Rightarrow> set_item2 ''seller'' ''id'' (PStr i) b)) = Inr b5"
    and b6: "(case publisher sp of None \<Rightarrow> Inr b5
           | Some t \<Rightarrow> set_item2 ''details'' ''publisher'' (PStr t) b5) = Inr b6"
    and b7: "(case dimensions sp of None \<Rightarrow> Inr b6
           | Some t \<Rightarrow> set_item2 ''details'' ''dimensions'' (PStr t) b6) = Inr d'"
    unfolding extract_enhanced_details_def bind_err_Inr by blast
  have 1: "nonempty_dict_at k b1"
    using b1 assms(2,3)
    by (auto simp: bind_err_Inr nonempty_dict_at_update split: option.splits if_splits pyval.splits)
  have 2: "nonempty_dict_at k b2" using b2 1 by (rule nonempty_dict_at_add_features)
  have 3: "nonempty_dict_at k b3" using b3 2 by (rule nonempty_dict_at_add_thumbnails)
  have 4: "nonempty_dict_at k b4"
    using b4 3 by (auto simp: bind_err_Inr split: option.splits dest: nonempty_dict_at_set_item2)
  have 5: "nonempty_dict_at k b5"
    using b5 4
    by (auto simp: bind_err_Inr split: option.splits) (meson nonempty_dict_at_set_item2)+
  have 6: "nonempty_dict_at k b6"
    using b6 5 by (auto split: option.splits dest: nonempty_dict_at_set_item2)
  show ?thesis
    using b7 6 by (auto split: option.splits dest: nonempty_dict_at_set_item2)
qed

lemma py_lt_dict: "py_lt (PDict d) x = Inl TypeError"
  by (cases x) simp_all

lemma meets_criteria_raises:
  "nonempty_dict_at ''rating'' book_data \<Longrightarrow> meets_criteria s book_data = Inl TypeError"
  by (auto simp: meets_criteria_def nonempty_dict_at_def bind_err_def py_lt_dict
      split: option.splits pyval.splits)

lemma book_record_dicts:
  assumes "book_record u sp = Inr b"
  shows "nonempty_dict_at ''rating'' b \<and> nonempty_dict_at ''price'' b"
proof -
  define b0 where "b0 =
            [(''type'', PStr ''book''),
             (''url'', PStr u),
             (''asin'', opt_str (asin_of u)),
             (''title'', PStr (title sp)),
             (''author'', PStr (author sp)),
             (''price'', PDict [(''value'', PNone), (''currency'', PNone)]),
             (''listPrice'', PDict [(''value'', PNone), (''currency'', PNone)]),
             (''rating'', PDict [(''stars'', PNone), (''count'', PNone)]),
             (''description'', PStr (description sp)),
             (''features'', PList []),
             (''details'',
                PDict [(''publication_date'', PStr (publication_date sp)),
                       (''page_count'', opt_int (page_count sp)),
                       (''language'', PStr (language sp)),
                       (''isbn'', PStr (isbn sp)),
                       (''publisher'', PNone),
                       (''dimensions'', PNone)]),
             (''categories'', PList (map PStr (categories sp))),
             (''breadcrumbs'', PNone),
             (''images'', PDict [(''primary'', PStr (image_url sp)), (''thumbnails'', PList [])]),
             (''availability'', PDict [(''inStock'', PNone), (''stockText'', PNone)]),
             (''seller'', PDict [(''name'', PNone), (''id'', PNone)])]"
  have 0: "nonempty_dict_at ''rating'' b0 \<and> nonempty_dict_at ''price'' b0"
    by (simp add: b0_def nonempty_dict_at_def)
  from assms obtain b1 b2 b3 stars n where
    b1: "(if truthy (opt_float (price sp)) then
               bind_err (set_item2 ''price'' ''value'' (opt_float (price sp)) b0)
                 (set_item2 ''price'' ''currency'' (PStr ''$''))
             else Inr b0) = Inr b1"
    and b2: "(if truthy (opt_float stars) then set_item2 ''rating'' ''stars'' (opt_float stars) b1
                   else Inr b1) = Inr b2"
    and b3: "(if truthy (opt_int n) then set_item2 ''rating'' ''count'' (opt_int n) b2
                   else Inr b2) = Inr b3"
    and b4: "extract_enhanced_details sp b3 = Inr b"
    unfolding book_record_def Let_def bind_err_Inr b0_def [symmetric] by blast
  have 1: "nonempty_dict_at k b1" if "nonempty_dict_at k b0" for k
    using b1 that by (auto simp: bind_err_Inr split: if_splits) (meson nonempty_dict_at_set_item2)+
  have 2: "nonempty_dict_at k b2" if "nonempty_dict_at k b1" for k
    using b2 that by (auto split: if_splits dest: nonempty_dict_at_set_item2)
  have 3: "nonempty_dict_at k b3" if "nonempty_dict_at k b2" for k
    using b3 that by (auto split: if_splits dest: nonempty_dict_at_set_item2)
  show ?thesis
    using 0 1 2 3 nonempty_dict_at_enhanced [OF b4] by simp
qed

lemma scrape_book_details_dicts:
  assumes "scrape_book_details u s = (Inr (Some b), s')"
  shows "nonempty_dict_at ''rating'' b \<and> nonempty_dict_at ''price'' b"
proof -
  obtain res s1 where mr: "make_request u 3 False s = (res, s1)" by fastforce
  with assms obtain r where res: "res = Inr (Some r)"
    by (auto simp: scrape_book_details_def split: sum.splits option.splits)
  from assms mr res obtain b0 where b0: "book_record u (content r) = Inr b0"
    by (auto simp: scrape_book_details_def split: sum.splits)
  have "b = b0 \<or> (\<exists>reviews. b = AList.update ''reviews'' (PList reviews) b0)"
    using assms mr res b0
    by (auto simp: scrape_book_details_def split: sum.splits if_splits prod.splits)
  then show ?thesis
    using book_record_dicts [OF b0] by (auto simp: nonempty_dict_at_update)
qed

lemma scrape_links_never_appends:
  "scrape_links links i books s = (Inr found, s') \<Longrightarrow> found = books"
proof (induction links arbitrary: i s)
  case Nil
  then show ?case by simp
next
  case (Cons book_url rest)
  obtain x s1 where p: "(if i > 0 then asyncio_sleep Pacing (request_delay s) s else (Inr (), s)) = (x, s1)"
    by fastforce
  then obtain u where x: "x = Inr u" using Cons.prems by (cases x) (auto simp del: One_nat_def)
  obtain y s2 where sc: "scrape_book_details book_url s1 = (y, s2)" by fastforce
  show ?case
  proof (cases y)
    case (Inl e)
    then show ?thesis using Cons.prems p x sc by simp
  next
    case (Inr ob)
    show ?thesis
    proof (cases ob)
      case None
      then show ?thesis using Cons.prems p x sc Inr Cons.IH [of "Suc i" s2] by simp
    next
      case (Some b)
      have "meets_criteria s2 b = Inl TypeError"
        using scrape_book_details_dicts [of book_url s1 b s2] sc Inr Some
        by (simp add: meets_criteria_raises)
      moreover have "b \<noteq> []"
        using scrape_book_details_dicts [of book_url s1 b s2] sc Inr Some
        by (auto simp: nonempty_dict_at_def)
      ultimately show ?thesis using Cons.prems p x sc Inr Some by simp
    qed
  qed
qed

lemma search_after_warmup_empty:
  "search_after_warmup q s = (Inr found, s') \<Longrightarrow> found = []"
  by (auto simp: search_after_warmup_def Let_def
      split: sum.splits prod.splits option.splits dest: scrape_links_never_appends)

lemma search_books_empty:
  "search_books q cat s = (Inr found, s') \<Longrightarrow> found = []"
  by (auto simp: search_books_def Let_def dest: search_after_warmup_empty)

lemma scrape_links_raises:
  assumes "scrape_book_details book_url s = (Inr (Some b), s')"
  shows "scrape_links (book_url # rest) 0 books s = (Inl TypeError, s')"
proof -
  have "meets_criteria s' b = Inl TypeError" "b \<noteq> []"
    using scrape_book_details_dicts [OF assms]
    by (auto simp: meets_criteria_raises nonempty_dict_at_def)
  then show ?thesis using assms by simp
qed

subsection \<open>Whole fetches\<close>

lemma fetch_200:
  assumes "client s = OPENED" "next_item (replies s) = Answer r"
    and "py_mul_float (dict_get (config s) ''requestDelay'' (PInt 2)) (4 / 5) = Inr lo"
    and "py_mul_float (dict_get (config s) ''requestDelay'' (PInt 2)) 2 = Inr hi"
    and "\<not> is_captcha_page r" "status_code r = 200" "0 < m"
  shows "\<exists>s'. make_request t m w s = (Inr (Some r), s') \<and> config s' = config s"
proof -
  obtain s' where s': "attempt_body t m 0 0 s = (Inr (Return (Some r)), s')"
    using attempt_body_200 [OF assms(1-4) _ assms(5,6), of 0 t m 0] by auto
  then have "make_request t m w s = (Inr (Some r), s')"
    using assms(7) by (simp add: make_request_def make_request_loop_unfold [of t m 0])
  then show ?thesis using attempt_body_fields [of t m 0 0 s] s' by auto
qed

lemma attempt_body_returns_answer:
  assumes "attempt_body t m a c s = (Inr (Return (Some r)), s')"
  shows "next_item (replies s) = Answer r"
proof -
  obtain x s1 where sr: "send_request t a s = (x, s1)" by fastforce
  show ?thesis
  proof (cases x)
    case (Inl e)
    then show ?thesis
      using assms sr on_exception_result [of m a c s1]
      by (auto simp: attempt_body_def split: if_splits sum.splits)
  next
    case (Inr r1)
    obtain y s2 where hr: "handle_response m a c r1 s1 = (y, s2)" by fastforce
    show ?thesis
    proof (cases y)
      case (Inl e)
      then show ?thesis
        using assms sr Inr hr on_exception_result [of m a c s2]
        by (auto simp: attempt_body_def split: if_splits sum.splits)
    next
      case (Inr f)
      then have "f = Return (Some r)"
        using assms sr \<open>x = Inr r1\<close> hr by (auto simp: attempt_body_def)
      then have "r1 = r"
        using handle_response_returns [of m a c r1 s1 r] hr Inr by auto
      then show ?thesis using send_request_answer [of t a s r1 s1] sr \<open>x = Inr r1\<close> by simp
    qed
  qed
qed

lemma attempt_body_replies:
  "replies (snd (attempt_body t m a c s)) = replies s
   \<or> replies (snd (attempt_body t m a c s)) = later (replies s)"
proof -
  obtain x s1 where sr: "send_request t a s = (x, s1)" by fastforce
  have r1: "replies s1 = replies s \<or> replies s1 = later (replies s)"
    using send_request_replies [of t a s] sr by simp
  show ?thesis
  proof (cases x)
    case (Inl e)
    then show ?thesis using sr r1 on_exception_fields [of m a c s1] by (simp add: attempt_body_def)
  next
    case (Inr r)
    obtain y s2 where hr: "handle_response m a c r s1 = (y, s2)" by fastforce
    have r2: "replies s2 = replies s1" using handle_response_fields [of m a c r s1] hr by simp
    show ?thesis
      using sr Inr hr r1 r2 on_exception_fields [of m a c s2]
      by (cases y) (simp_all add: attempt_body_def)
  qed
qed

lemma make_request_loop_deaf_none:
  assumes "make_request_loop t m a c s = (res, s')" "\<forall>n. replies s n = Failure" "m \<le> 1025"
  shows "res = Inr None \<and> (\<forall>n. replies s' n = Failure)"
  using assms
proof (induction "nat (m - int a)" arbitrary: a c s)
  case 0
  then have "\<not> int a < m" by simp
  with 0 have "all_attempts_failed s = (res, s')" by (simp add: make_request_loop_unfold)
  then show ?case using all_attempts_failed_spec [of s] "0.prems"(2) by auto
next
  case (Suc n)
  from Suc.prems(1) show ?case
  proof (cases rule: make_request_loop_cases)
    case exhausted
    then show ?thesis using all_attempts_failed_spec [of s] Suc.prems(2) by auto
  next
    case (raised e)
    then show ?thesis using attempt_body_no_raise [of a m t c s] Suc.prems(3) by auto
  next
    case (returned result)
    have "result = None"
      using attempt_body_returns_answer [of t m a c s _ s'] returned(2) Suc.prems(2)
      by (cases result) (auto simp: next_item_def)
    then show ?thesis
      using returned attempt_body_replies [of t m a c s] Suc.prems(2) by (auto simp: later_def)
  next
    case (continued c' s1)
    have n: "n = nat (m - int (Suc a))" using Suc.hyps(2) by simp
    have d: "\<forall>n. replies s1 n = Failure"
      using attempt_body_replies [of t m a c s] continued(2) Suc.prems(2) by (auto simp: later_def)
    show ?thesis by (rule Suc.hyps(1) [OF n continued(3) d Suc.prems(3)])
  qed
qed

lemma fetch_deaf:
  assumes "\<forall>n. replies s n = Failure" "m \<le> 1025"
  shows "\<exists>s'. make_request t m w s = (Inr None, s') \<and> (\<forall>n. replies s' n = Failure)
           \<and> config s' = config s \<and> session_warmed s' = session_warmed s"
proof -
  obtain res s' where mr: "make_request t m w s = (res, s')" by fastforce
  then show ?thesis
    using make_request_loop_deaf_none [of t m 0 0 s res s'] assms make_request_spec [OF mr]
    by (auto simp: make_request_def)
qed

subsection \<open>The warm-up flag\<close>

lemma warm_up_session_warmed:
  "session_warmed (snd (warm_up_session s)) = session_warmed s
   \<and> config (snd (warm_up_session s)) = config s"
proof -
  obtain res s1 where m1: "make_request ''https://www.amazon.com'' 3 True s = (res, s1)"
    by fastforce
  note f1 = make_request_spec [OF m1]
  obtain res2 s5 where m2: "make_request
      ''https://www.amazon.com/books-used-books-textbooks/b?ie=UTF8&node=283155'' 3 True
      (s1\<lparr>trace := trace s1 @ [Sleep Warmup (2 + 3 * next_item (rng s1))],
           rng := later (later (rng s1))\<rparr>) = (res2, s5)"
    by fastforce
  note f2 = make_request_spec [OF m2]
  show ?thesis
    using f1 f2 m1 m2
    by (auto simp: warm_up_session_def random_uniform_def random_random_def sleep_def Let_def
        split: sum.splits option.splits)
qed

lemma scrape_reviews_warmed:
  "session_warmed (snd (scrape_reviews u s)) = session_warmed s"
proof (cases "asin_of u")
  case None
  then show ?thesis by (simp add: scrape_reviews_def)
next
  case (Some asin)
  obtain res s1 where m: "make_request (base_url @ ''/product-reviews/'' @ asin) 3 False s = (res, s1)"
    by fastforce
  show ?thesis
    using make_request_spec [OF m] m Some
    by (auto simp: scrape_reviews_def Let_def split: sum.splits option.splits)
qed

lemma scrape_book_details_warmed:
  "session_warmed (snd (scrape_book_details u s)) = session_warmed s"
proof -
  obtain res s1 where m: "make_request u 3 False s = (res, s1)" by fastforce
  show ?thesis
    using make_request_spec [OF m] m scrape_reviews_warmed [of u s1]
    by (auto simp: scrape_book_details_def split: sum.splits option.splits prod.splits)
qed

lemma scrape_links_warmed:
  "session_warmed (snd (scrape_links links i books s)) = session_warmed s"
proof (induction links arbitrary: i books s)
  case Nil
  then show ?case by simp
next
  case (Cons u rest)
  obtain x s1 where p: "(if i > 0 then asyncio_sleep Pacing (request_delay s) s else (Inr (), s)) = (x, s1)"
    by fastforce
  have w1: "session_warmed s1 = session_warmed s"
    using p by (auto simp: asyncio_sleep_def sleep_def split: if_splits option.splits)
  obtain y s2 where sc: "scrape_book_details u s1 = (y, s2)" by fastforce
  have w2: "session_warmed s2 = session_warmed s"
    using scrape_book_details_warmed [of u s1] sc w1 by simp
  show ?case
    using p sc w1 w2 Cons.IH
    by (cases x; cases y) (auto simp del: One_nat_def split: option.splits sum.splits)
qed

lemma search_after_warmup_warmed:
  "session_warmed (snd (search_after_warmup q s)) = session_warmed s"
proof (cases "build_search_url q s")
  case (Inl e)
  then show ?thesis by (simp add: search_after_warmup_def)
next
  case (Inr search_url)
  obtain res s1 where m: "make_request search_url 3 False s = (res, s1)" by fastforce
  show ?thesis
    using make_request_spec [OF m] m Inr scrape_links_warmed
    by (auto simp: search_after_warmup_def Let_def split: sum.splits option.splits)
qed

lemma search_books_warmed: "session_warmed (snd (search_books q cat s))"
  using warm_up_session_warmed [of s]
  by (auto simp: search_books_def search_after_warmup_warmed Let_def split: prod.splits)

lemma book_record_empty_page:
  "\<exists>b. book_record ''https://www.amazon.com/dp/B000000000'' empty_page = Inr b"
  by (simp add: book_record_def empty_page_def extract_enhanced_details_def bind_err_def
      opt_float_def opt_int_def Let_def)

lemma scrape_plain_200:
  "\<exists>b s'. scrape_book_details ''https://www.amazon.com/dp/B000000000''
             (new_scraper [Answer (plain_response 200 [])]) = (Inr (Some b), s')"
proof -
  let ?t = "''https://www.amazon.com/dp/B000000000''"
  let ?s = "new_scraper [Answer (plain_response 200 [])]"
  obtain s' where f: "make_request ?t 3 False ?s = (Inr (Some (plain_response 200 [])), s')"
      "config s' = []"
    using fetch_200 [of ?s "plain_response 200 []" "8 / 5" 4 3 ?t False]
    by (auto simp: default_delay_fits)
  obtain b where b: "book_record ?t empty_page = Inr b"
    using book_record_empty_page by blast
  have "scrape_book_details ?t ?s = (Inr (Some b), s')"
    using f b by (simp add: scrape_book_details_def plain_response_def dict_get_def)
  then show ?thesis by blast
qed

lemma search_deaf:
  "\<exists>s'. search_books ''python'' None (new_scraper []) = (Inr [], s')"
proof -
  let ?s = "new_scraper []"
  have d0: "\<forall>n. replies ?s n = Failure" by (simp add: feed_def)
  obtain s1 where s1: "make_request ''https://www.amazon.com'' 3 True ?s = (Inr None, s1)"
      "\<forall>n. replies s1 n = Failure" "config s1 = []"
    using fetch_deaf [OF d0, of 3 "''https://www.amazon.com''" True] by auto
  have w: "warm_up_session ?s = (False, s1)" using s1(1) by (simp add: warm_up_session_def)
  let ?s2 = "s1\<lparr>session_warmed := True\<rparr>"
  obtain search_url where u: "build_search_url ''python'' ?s2 = Inr search_url"
    using s1(3) by (simp add: build_search_url_def dict_get_def Let_def)
  have d2: "\<forall>n. replies ?s2 n = Failure" using s1(2) by simp
  obtain s3 where s3: "make_request search_url 3 False ?s2 = (Inr None, s3)"
    using fetch_deaf [OF d2, of 3 search_url False] by auto
  have "search_books ''python'' None ?s = (Inr [], s3)"
    using w u s3 by (simp add: search_books_def search_after_warmup_def new_scraper_def scraper_init_def)
  then show ?thesis by blast
qed

subsection \<open>The claims about search and warm-up\<close>

text \<open>
  C9. Every record that \<^verbatim>\<open>_scrape_book_details\<close> returns has non-empty dicts under
  \<^verbatim>\<open>rating\<close> and \<^verbatim>\<open>price\<close>, so \<^verbatim>\<open>_meets_criteria\<close> raises \<^verbatim>\<open>TypeError\<close> on it whatever the
  configuration: the dict is true, and a dict compares with no value of \<^verbatim>\<open>minRating\<close>.
  The loop of \<^verbatim>\<open>search_books\<close> therefore ends in \<^verbatim>\<open>TypeError\<close> at the first link whose page
  is scraped, and a list that \<^verbatim>\<open>search_books\<close> does return is empty.
\<close>

theorem meets_criteria_raises_on_scraped_books:
  "(scrape_book_details book_url s = (Inr (Some book_data), s') \<longrightarrow>
      nonempty_dict_at ''rating'' book_data \<and> nonempty_dict_at ''price'' book_data
      \<and> meets_criteria s2 book_data = Inl TypeError
      \<and> scrape_links (book_url # rest) 0 books s = (Inl TypeError, s'))
   \<and> (search_books search_term category s = (Inr found, s3) \<longrightarrow> found = [])"
  using scrape_book_details_dicts [of book_url s book_data s']
    meets_criteria_raises [of book_data s2]
    scrape_links_raises [of book_url s book_data s' rest books]
    search_books_empty [of search_term category s found s3]
  by blast

text \<open>C9 on a page answered with a plain 200, and on a search that no request gets through.\<close>

theorem meets_criteria_raises_on_scraped_books_witness:
  "(\<exists>book_data s'.
      scrape_book_details ''https://www.amazon.com/dp/B000000000''
        (new_scraper [Answer (plain_response 200 [])]) = (Inr (Some book_data), s')
      \<and> meets_criteria (new_scraper []) book_data = Inl TypeError)
   \<and> fst (scrape_links [''https://www.amazon.com/dp/B000000000''] 0 []
            (new_scraper [Answer (plain_response 200 [])])) = Inl TypeError
   \<and> fst (search_books ''python'' None (new_scraper [])) = Inr []"
proof -
  let ?t = "''https://www.amazon.com/dp/B000000000''"
  let ?s = "new_scraper [Answer (plain_response 200 [])]"
  obtain b s' where sc: "scrape_book_details ?t ?s = (Inr (Some b), s')"
    using scrape_plain_200 by blast
  obtain s3 where se: "search_books ''python'' None (new_scraper []) = (Inr [], s3)"
    using search_deaf by blast
  show ?thesis
    using meets_criteria_raises_on_scraped_books
      [of ?t ?s b s' "new_scraper []" "[]" "[]" "''python''" None "[]" s3]
      meets_criteria_raises_on_scraped_books
      [of ?t "new_scraper []" b s' "new_scraper []" "[]" "[]" "''python''" None "[]" s3]
      sc se
    by auto
qed

text \<open>
  C10. \<^verbatim>\<open>_make_request\<close> does the same and returns the same with \<^verbatim>\<open>skip_warmup\<close> true or
  false. Whether \<^verbatim>\<open>search_books\<close> warms up is decided by \<^verbatim>\<open>_session_warmed\<close> alone: with
  the attribute set it goes straight to the search, without it the warm-up runs once and
  the attribute is set; it is set after every call, so a second search never warms up.
\<close>

theorem skip_warmup_is_never_read:
  "make_request target max_retries True s = make_request target max_retries False s
   \<and> search_books q cat (s\<lparr>session_warmed := True\<rparr>)
       = search_after_warmup q (s\<lparr>session_warmed := True\<rparr>)
   \<and> search_books q cat (s\<lparr>session_warmed := False\<rparr>)
       = search_after_warmup q
           ((snd (warm_up_session (s\<lparr>session_warmed := False\<rparr>)))\<lparr>session_warmed := True\<rparr>)
   \<and> session_warmed (snd (search_books q cat s))
   \<and> search_books q' cat' (snd (search_books q cat s))
       = search_after_warmup q' (snd (search_books q cat s))"
proof -
  have "search_books q' cat' (snd (search_books q cat s))
       = search_after_warmup q' (snd (search_books q cat s))"
    using search_books_warmed [of q cat s] by (simp add: search_books_def)
  then show ?thesis
    using search_books_warmed [of q cat s]
    by (simp add: make_request_def search_books_def split_def)
qed

end
